theory Spec2Isabelle
  imports Main "HOL-Library.Sublist"
begin

section \<open>JavaScript values and strings\<close>

text \<open>
  The extension is plain JavaScript. A field of a company record can hold any value, and
  the duplicate matcher guards on truthiness, on \<^verbatim>\<open>typeof\<close> and on the "N/A" sentinel,
  so fields are modelled as JavaScript values. \<open>JObj\<close> stands for any object. A string is
  a list of code units; the model covers code units below 256.
\<close>

datatype jsval = JUndefined | JNull | JBool bool | JNum int | JStr string | JObj

fun truthy :: "jsval \<Rightarrow> bool" where
  "truthy JUndefined = False"
| "truthy JNull = False"
| "truthy (JBool b) = b"
| "truthy (JNum n) = (n \<noteq> 0)"
| "truthy (JStr s) = (s \<noteq> [])"
| "truthy JObj = True"

text \<open>What a JavaScript \<^verbatim>\<open>throw\<close> carries: a \<^verbatim>\<open>TypeError\<close> raised by the engine
  (calling a string method on a value that has none) or an \<^verbatim>\<open>Error\<close> with its message.\<close>

datatype error = TypeError | Error string

text \<open>\<^verbatim>\<open>\s\<close> in a regular expression and the characters \<^verbatim>\<open>trim()\<close> removes: TAB, LF, VT,
  FF, CR, space and the no-break space.\<close>

definition is_space :: "char \<Rightarrow> bool" where
  "is_space c \<longleftrightarrow>
     c \<in> set [CHR 0x09, CHR 0x0A, CHR 0x0B, CHR 0x0C, CHR 0x0D, CHR '' '', CHR 0xA0]"

definition trim :: "string \<Rightarrow> string" where
  "trim s = rev (dropWhile is_space (rev (dropWhile is_space s)))"

text \<open>\<^verbatim>\<open>toLowerCase()\<close>: A-Z and the capital letters of Latin-1 (0xC0-0xDE without the
  multiplication sign 0xD7) move up by 32.\<close>

definition lower_char :: "char \<Rightarrow> char" where
  "lower_char c =
     (let n = (of_char c :: nat)
      in if (65 \<le> n \<and> n \<le> 90) \<or> (192 \<le> n \<and> n \<le> 222 \<and> n \<noteq> 215)
         then char_of (n + 32) else c)"

definition toLowerCase :: "string \<Rightarrow> string" where
  "toLowerCase s = map lower_char s"

text \<open>\<^verbatim>\<open>s.split(sep)[0]\<close> for a one-character separator: the part before its first
  occurrence.\<close>

definition split_head :: "char \<Rightarrow> string \<Rightarrow> string" where
  "split_head sep s = takeWhile (\<lambda>c. c \<noteq> sep) s"

text \<open>\<^verbatim>\<open>s.includes(sub)\<close>.\<close>

fun str_includes :: "string \<Rightarrow> string \<Rightarrow> bool" where
  "str_includes sub [] = (sub = [])"
| "str_includes sub (c # cs) = (prefix sub (c # cs) \<or> str_includes sub cs)"

text \<open>\<^verbatim>\<open>s.replace(/^https?:\/\//, '')\<close> and \<^verbatim>\<open>s.replace(/^www\./, '')\<close>.\<close>

definition strip_protocol :: "string \<Rightarrow> string" where
  "strip_protocol s =
     (if prefix ''https://'' s then drop (length ''https://'') s
      else if prefix ''http://'' s then drop (length ''http://'') s
      else s)"

definition strip_www :: "string \<Rightarrow> string" where
  "strip_www s = (if prefix ''www.'' s then drop (length ''www.'') s else s)"

text \<open>\<^verbatim>\<open>s.replace(/\/+$/, '')\<close>: the whole run of slashes at the end goes.\<close>

definition strip_trailing_slashes :: "string \<Rightarrow> string" where
  "strip_trailing_slashes s = rev (dropWhile (\<lambda>c. c = CHR ''/'') (rev s))"

definition company_path :: string where
  "company_path = ''linkedin.com/company/''"

text \<open>\<^verbatim>\<open>s.match(/linkedin\.com\/company\/([^\/]+)/)\<close>, returning capture group 1: the
  leftmost place where the literal is followed by at least one character other than a
  slash, and the longest run of such characters there.\<close>

fun match_company :: "string \<Rightarrow> string option" where
  "match_company [] = None"
| "match_company (c # cs) =
     (if prefix company_path (c # cs)
         \<and> takeWhile (\<lambda>x. x \<noteq> CHR ''/'') (drop (length company_path) (c # cs)) \<noteq> []
      then Some (takeWhile (\<lambda>x. x \<noteq> CHR ''/'') (drop (length company_path) (c # cs)))
      else match_company cs)"

definition legal_suffixes :: "string list" where
  "legal_suffixes = [''inc'', ''llc'', ''ltd'', ''corp'', ''corporation'', ''company'', ''co'']"

text \<open>Whether the whole of \<open>t\<close> matches \<^verbatim>\<open>\s+(inc|llc|ltd|corp|corporation|company|co)\.?\<close>
  without regard to case.\<close>

definition legal_suffix_at :: "string \<Rightarrow> bool" where
  "legal_suffix_at t =
     (let r = toLowerCase (dropWhile is_space t)
      in takeWhile is_space t \<noteq> []
         \<and> (r \<in> set legal_suffixes \<or> r \<in> set (map (\<lambda>w. w @ ''.'') legal_suffixes)))"

text \<open>\<^verbatim>\<open>s.replace(/\s+(inc|llc|ltd|corp|corporation|company|co)\.?$/i, '')\<close>: the match is
  anchored at the end, so the leftmost position from which the rest of the string matches
  cuts the string there.\<close>

fun strip_legal_suffix :: "string \<Rightarrow> string" where
  "strip_legal_suffix [] = []"
| "strip_legal_suffix (c # cs) =
     (if legal_suffix_at (c # cs) then [] else c # strip_legal_suffix cs)"

section \<open>The duplicate matcher (background/service-worker.js)\<close>

record company =
  name :: jsval
  website :: jsval
  industry :: jsval
  phone :: jsval
  headquarters :: jsval
  url :: jsval
  timestamp :: jsval

text \<open>\<^verbatim>\<open>normalizeUrl(url)\<close>; \<open>None\<close> is \<^verbatim>\<open>null\<close>. No string operation in its
  \<^verbatim>\<open>try\<close> block throws, so the \<^verbatim>\<open>catch\<close> is never entered.\<close>

fun normalizeUrl :: "jsval \<Rightarrow> string option" where
  "normalizeUrl (JStr u) =
     (if u = [] \<or> u = ''N/A'' then None
      else
        let normalized = strip_www (strip_protocol (toLowerCase
                           (trim (split_head (CHR ''#'') (split_head (CHR ''?'') u)))))
        in case (if str_includes company_path normalized then match_company normalized
                 else None) of
             Some slug \<Rightarrow> Some (company_path @ slug)
           | None \<Rightarrow>
               (let stripped = strip_trailing_slashes normalized
                in if stripped = [] then None else Some stripped))"
| "normalizeUrl _ = None"

fun extractCompanySlug :: "jsval \<Rightarrow> string option" where
  "extractCompanySlug (JStr u) =
     (if u = [] then None
      else case normalizeUrl (JStr u) of
             None \<Rightarrow> None
           | Some normalized \<Rightarrow> match_company normalized)"
| "extractCompanySlug _ = None"

text \<open>\<^verbatim>\<open>normalizeName(name)\<close> has no \<^verbatim>\<open>typeof\<close> guard: a truthy value that is not a
  string has no \<^verbatim>\<open>toLowerCase\<close> and the call throws.\<close>

fun normalizeName :: "jsval \<Rightarrow> error + string option" where
  "normalizeName (JStr s) =
     (if s = [] \<or> s = ''N/A'' then Inr None else Inr (Some (trim (toLowerCase s))))"
| "normalizeName v = (if truthy v then Inl TypeError else Inr None)"

text \<open>A \<^verbatim>\<open>string | null\<close> used as a condition.\<close>

fun truthy_str :: "string option \<Rightarrow> bool" where
  "truthy_str None = False"
| "truthy_str (Some s) = (s \<noteq> [])"

text \<open>The three callbacks handed to \<^verbatim>\<open>companies.find\<close>.\<close>

definition url_callback :: "string option \<Rightarrow> string option \<Rightarrow> company \<Rightarrow> bool" where
  "url_callback companyUrl companySlug c =
     (case normalizeUrl (url c) of
        None \<Rightarrow> False
      | Some existingUrl \<Rightarrow>
          if existingUrl = [] then False
          else if Some existingUrl = companyUrl then True
          else if truthy_str companySlug \<and> str_includes company_path existingUrl
          then (let existingSlug = extractCompanySlug (url c)
                in truthy_str existingSlug \<and> existingSlug = companySlug)
          else False)"

definition slug_callback :: "string option \<Rightarrow> company \<Rightarrow> bool" where
  "slug_callback companySlug c =
     (let existingSlug = extractCompanySlug (url c)
      in truthy_str existingSlug \<and> existingSlug = companySlug)"

definition name_callback :: "string \<Rightarrow> company \<Rightarrow> error + bool" where
  "name_callback companyName c =
     (case normalizeName (name c) of
        Inl e \<Rightarrow> Inl e
      | Inr existing \<Rightarrow>
          if \<not> truthy_str existing \<or> existing = Some ''n/a'' then Inr False
          else if the existing = companyName then Inr True
          else
            let cleanExisting = trim (strip_legal_suffix (the existing));
                cleanNew = trim (strip_legal_suffix companyName)
            in Inr (cleanExisting = cleanNew \<and> length cleanExisting > 3))"

text \<open>\<^verbatim>\<open>Array.prototype.find\<close> with a callback that may throw: the exception leaves
  \<^verbatim>\<open>find\<close> at the element that raised it.\<close>

fun find_throwing :: "('a \<Rightarrow> error + bool) \<Rightarrow> 'a list \<Rightarrow> error + 'a option" where
  "find_throwing p [] = Inr None"
| "find_throwing p (x # xs) =
     (case p x of
        Inl e \<Rightarrow> Inl e
      | Inr True \<Rightarrow> Inr (Some x)
      | Inr False \<Rightarrow> find_throwing p xs)"

text \<open>\<^verbatim>\<open>isDuplicateCompany(company, companies)\<close>; the candidate may be \<^verbatim>\<open>null\<close>.\<close>

fun isDuplicateCompany :: "company option \<Rightarrow> company list \<Rightarrow> error + bool" where
  "isDuplicateCompany None companies = Inr False"
| "isDuplicateCompany (Some c) companies =
     (let companyUrl = normalizeUrl (url c)
      in case normalizeName (name c) of
           Inl e \<Rightarrow> Inl e
         | Inr companyName \<Rightarrow>
             let companySlug = extractCompanySlug (url c)
             in if truthy_str companyUrl
                   \<and> find (url_callback companyUrl companySlug) companies \<noteq> None
                then Inr True
                else if truthy_str companySlug
                   \<and> find (slug_callback companySlug) companies \<noteq> None
                then Inr True
                else if truthy_str companyName
                then (case find_throwing (name_callback (the companyName)) companies of
                        Inl e \<Rightarrow> Inl e
                      | Inr duplicateByName \<Rightarrow> Inr (duplicateByName \<noteq> None))
                else Inr False)"

section \<open>The record store\<close>

text \<open>The value under the key \<^verbatim>\<open>linkedin_scraper_data\<close> of \<^verbatim>\<open>chrome.storage.local\<close>;
  \<open>None\<close> when the key is absent. Storage calls are taken to succeed.\<close>

type_synonym storage = "company list option"

definition getCompanies :: "storage \<Rightarrow> company list" where
  "getCompanies st = (case st of None \<Rightarrow> [] | Some cs \<Rightarrow> cs)"

text \<open>\<^verbatim>\<open>saveCompanyData(company)\<close>: the resolved boolean, or the exception of the duplicate
  check, together with the storage afterwards.\<close>

definition saveCompanyData :: "company \<Rightarrow> storage \<Rightarrow> (error + bool) \<times> storage" where
  "saveCompanyData c st =
     (let companies = getCompanies st
      in case isDuplicateCompany (Some c) companies of
           Inl e \<Rightarrow> (Inl e, st)
         | Inr True \<Rightarrow> (Inr False, st)
         | Inr False \<Rightarrow> (Inr True, Some (companies @ [c])))"

section \<open>The side panel's copy of the matcher (sidepanel/sidepanel.js)\<close>

text \<open>\<open>isDuplicate\<close> of the side panel declares its own \<^verbatim>\<open>normalizeUrl\<close>,
  \<^verbatim>\<open>extractCompanySlug\<close> and \<^verbatim>\<open>normalizeName\<close> closures. The first and the last repeat
  the service worker's functions operation by operation; the slug closure lacks the
  guard on its argument and is written out here.\<close>

definition sp_extractCompanySlug :: "jsval \<Rightarrow> string option" where
  "sp_extractCompanySlug v =
     (case normalizeUrl v of None \<Rightarrow> None | Some normalized \<Rightarrow> match_company normalized)"

definition sp_url_callback :: "string option \<Rightarrow> string option \<Rightarrow> company \<Rightarrow> bool" where
  "sp_url_callback companyUrl companySlug c =
     (case normalizeUrl (url c) of
        None \<Rightarrow> False
      | Some existingUrl \<Rightarrow>
          if existingUrl = [] then False
          else if Some existingUrl = companyUrl then True
          else if truthy_str companySlug \<and> str_includes company_path existingUrl
          then (let existingSlug = sp_extractCompanySlug (url c)
                in truthy_str existingSlug \<and> existingSlug = companySlug)
          else False)"

definition sp_slug_callback :: "string option \<Rightarrow> company \<Rightarrow> bool" where
  "sp_slug_callback companySlug c =
     (let existingSlug = sp_extractCompanySlug (url c)
      in truthy_str existingSlug \<and> existingSlug = companySlug)"

text \<open>\<^verbatim>\<open>isDuplicate(company)\<close> over \<^verbatim>\<open>this.companies\<close>, passed as the first argument.\<close>

fun isDuplicate :: "company list \<Rightarrow> company option \<Rightarrow> error + bool" where
  "isDuplicate companies None = Inr False"
| "isDuplicate companies (Some c) =
     (let companyUrl = normalizeUrl (url c)
      in case normalizeName (name c) of
           Inl e \<Rightarrow> Inl e
         | Inr companyName \<Rightarrow>
             let companySlug = sp_extractCompanySlug (url c)
             in if truthy_str companyUrl
                   \<and> find (sp_url_callback companyUrl companySlug) companies \<noteq> None
                then Inr True
                else if truthy_str companySlug
                   \<and> find (sp_slug_callback companySlug) companies \<noteq> None
                then Inr True
                else if truthy_str companyName
                then (case find_throwing (name_callback (the companyName)) companies of
                        Inl e \<Rightarrow> Inl e
                      | Inr duplicateByName \<Rightarrow> Inr (duplicateByName \<noteq> None))
                else Inr False)"



section \<open>The rate limiter\<close>

text \<open>\<^verbatim>\<open>class RateLimiter\<close> of utils/rate-limiter.js. Times are milliseconds as
  \<^verbatim>\<open>Date.now()\<close> gives them.\<close>

record rateLimiter =
  minDelay :: int
  maxDelay :: int
  lastRequestTime :: int
  isThrottled :: bool

definition new_RateLimiter :: rateLimiter where
  "new_RateLimiter =
     \<lparr>minDelay = 5000, maxDelay = 10000, lastRequestTime = 0, isThrottled = False\<rparr>"

text \<open>\<^verbatim>\<open>RateLimiter.wait()\<close>. \<open>delay\<close> is the integer \<^verbatim>\<open>getRandomDelay()\<close> returned,
  \<open>now\<close> the clock at the call and \<open>after\<close> the clock when the timer has fired. The
  result is the \<^verbatim>\<open>actualDelay\<close> the promise resolves to.\<close>

definition RateLimiter_wait :: "int \<Rightarrow> int \<Rightarrow> int \<Rightarrow> rateLimiter \<Rightarrow> int \<times> rateLimiter" where
  "RateLimiter_wait delay now after rl =
     (let timeSinceLastRequest = now - lastRequestTime rl;
          actualDelay = (if timeSinceLastRequest < delay then delay - timeSinceLastRequest
                         else 0)
      in (actualDelay, rl\<lparr>lastRequestTime := after\<rparr>))"

text \<open>\<^verbatim>\<open>waitWithRateLimit()\<close> of the coordinator in background/service-worker.js, over
  its own \<^verbatim>\<open>this.rateLimiter\<close> object. The first component is the time slept.\<close>

definition waitWithRateLimit :: "int \<Rightarrow> int \<Rightarrow> int \<Rightarrow> rateLimiter \<Rightarrow> int \<times> rateLimiter" where
  "waitWithRateLimit delay now after rl =
     (let timeSinceLastRequest = now - lastRequestTime rl;
          actualDelay = (if timeSinceLastRequest < delay then delay - timeSinceLastRequest
                         else min delay 2000)
      in (actualDelay, rl\<lparr>lastRequestTime := after\<rparr>))"

section \<open>The matching rules in words\<close>

text \<open>The four strategies as the specification words them, between a candidate \<open>c\<close>
  and an existing record \<open>e\<close>: equal normalized URLs, equal slugs (a slug exists only
  for a URL of the target domain), equal normalized names, and equal names after the
  legal-entity suffix is stripped, with more than three characters left.\<close>

definition by_url :: "company \<Rightarrow> company \<Rightarrow> bool" where
  "by_url c e \<longleftrightarrow>
     normalizeUrl (url c) \<noteq> None \<and> normalizeUrl (url e) = normalizeUrl (url c)"

definition by_slug :: "company \<Rightarrow> company \<Rightarrow> bool" where
  "by_slug c e \<longleftrightarrow>
     extractCompanySlug (url c) \<noteq> None
     \<and> extractCompanySlug (url e) = extractCompanySlug (url c)"

definition by_name :: "company \<Rightarrow> company \<Rightarrow> bool" where
  "by_name c e =
     (case (normalizeName (name c), normalizeName (name e)) of
        (Inr (Some n), Inr (Some m)) \<Rightarrow> m = n
      | _ \<Rightarrow> False)"

definition by_fuzzy_name :: "company \<Rightarrow> company \<Rightarrow> bool" where
  "by_fuzzy_name c e =
     (case (normalizeName (name c), normalizeName (name e)) of
        (Inr (Some n), Inr (Some m)) \<Rightarrow>
          trim (strip_legal_suffix m) = trim (strip_legal_suffix n)
          \<and> length (trim (strip_legal_suffix m)) > 3
      | _ \<Rightarrow> False)"

definition claimed_isDuplicate :: "company \<Rightarrow> company list \<Rightarrow> bool" where
  "claimed_isDuplicate c cs =
     list_ex (\<lambda>e. by_url c e \<or> by_slug c e \<or> by_name c e \<or> by_fuzzy_name c e) cs"

text \<open>What the code adds to the two name strategies: the candidate's normalized name is
  not empty, and the existing record's is neither empty nor "n/a".\<close>

definition name_comparable :: "company \<Rightarrow> company \<Rightarrow> bool" where
  "name_comparable c e =
     (case (normalizeName (name c), normalizeName (name e)) of
        (Inr (Some n), Inr (Some m)) \<Rightarrow> n \<noteq> [] \<and> m \<noteq> [] \<and> m \<noteq> ''n/a''
      | _ \<Rightarrow> False)"

definition by_guarded_name :: "company \<Rightarrow> company \<Rightarrow> bool" where
  "by_guarded_name c e \<longleftrightarrow> name_comparable c e \<and> (by_name c e \<or> by_fuzzy_name c e)"

text \<open>A record whose name is a string or falsy: \<open>normalizeName\<close> does not throw on it.\<close>

definition name_typed :: "company \<Rightarrow> bool" where
  "name_typed c = (case name c of JStr s \<Rightarrow> True | v \<Rightarrow> \<not> truthy v)"


section \<open>The scraping coordinator (background/service-worker.js)\<close>

text \<open>
  \<^verbatim>\<open>class ScraperCoordinator\<close>. The record below holds \<^verbatim>\<open>this.state\<close> and
  \<^verbatim>\<open>this.activeTabId\<close>, and with them what the coordinator acts on: the stored
  collection, the detail tabs open in the browser, and three traces of its effects (the
  URLs handed to \<^verbatim>\<open>chrome.tabs.create\<close>, the messages sent to the listing tab with the
  page they were sent from, the notifications sent to the side panel). Entries of the error
  log and status texts are template strings in the source; they are kept structured here.
  \<^verbatim>\<open>saveState()\<close> and \<^verbatim>\<open>waitWithRateLimit()\<close> only persist and sleep, and no decision
  of the coordinator reads what they write, so they leave no mark on the record.
\<close>

datatype errlog =
    PageError int error
  | CompanyError jsval error
  | PaginationError int error

record stats =
  totalProcessed :: nat
  totalFound :: nat
  pagesScraped :: int
  errorCount :: nat

datatype status =
    ProcessingPage int
  | NoCompaniesFound int
  | PageSummary int nat nat
  | AllCollected int
  | ErrorStatus error
  | SkippedDuplicate jsval
  | ScrapingCompany nat
  | NavigationError error

datatype notification =
    ScrapingStarted
  | StatusUpdate status
  | CompaniesFound nat int
  | CompanyScraped company nat
  | ScrapingComplete stats
  | ScrapingStopped stats
  | ScrapingPaused
  | ScrapingResumed

datatype tabmsg = ExtractCompanyURLs | CheckPagination | ClickNextPage

record coordinator =
  isRunning :: bool
  isPaused :: bool
  currentPage :: int
  startPage :: int
  maxPages :: int
  processedCompanies :: nat
  totalCompaniesFound :: nat
  companyQueue :: "jsval list"
  currentCompanyIndex :: nat
  errors :: "errlog list"
  activeTabId :: "nat option"
  store :: storage
  openTabs :: "nat list"
  tabCounter :: nat
  created :: "string list"
  listingLog :: "(int \<times> tabmsg) list"
  ui :: "notification list"

text \<open>The constructor, in a browser with no detail tab open.\<close>

definition new_ScraperCoordinator :: "storage \<Rightarrow> coordinator" where
  "new_ScraperCoordinator st =
     \<lparr>isRunning = False, isPaused = False, currentPage = 1, startPage = 1, maxPages = 5,
      processedCompanies = 0, totalCompaniesFound = 0, companyQueue = [],
      currentCompanyIndex = 0, errors = [], activeTabId = None, store = st, openTabs = [],
      tabCounter = 0, created = [], listingLog = [], ui = []\<rparr>"

subsection \<open>What the coordinator does not control\<close>

text \<open>An entry of the listing, as the content script sends it.\<close>

record listing_item =
  item_url :: jsval
  item_name :: jsval

text \<open>The reply to \<^verbatim>\<open>extractCompanyURLs\<close>: unsuccessful (with or without an error text), a
  success without an array of URLs, or the entries of the page. \<^verbatim>\<open>sendMessageToTab\<close>
  resolves with an object in every case, and \<^verbatim>\<open>ensureContentScriptInjected\<close> catches
  what it runs and resolves with a boolean, so the reply is never missing and the
  \<^verbatim>\<open>catch\<close> block around the injection in \<open>processCurrentPage\<close> is never entered.\<close>

datatype page_response =
    Failure "string option"
  | InvalidFormat
  | Companies "listing_item list"

text \<open>What happens to the visit of one item: \<^verbatim>\<open>chrome.tabs.create\<close> throws, the tab is
  created and the wait for its load rejects, the tab loads and the extraction reply is
  unusable, the extraction returns a record, or it returns a record and the
  \<^verbatim>\<open>chrome.tabs.remove\<close> that follows throws.\<close>

datatype item_outcome =
    CreateFails error
  | LoadFails error
  | ExtractFails
  | Extracted company
  | CloseFails company error

text \<open>What happens to an attempt to advance: an exception before any message is sent (the
  listing tab is gone or off the domain), a click that is refused, a click after which the
  tab cannot be read or is no longer on a results page, or a successful advance.
  \<^verbatim>\<open>ensureContentScriptInjected\<close> and \<^verbatim>\<open>sendMessageToTab\<close> catch what they run and
  resolve in every case, so no exception comes from them.\<close>

datatype advance_outcome =
    TabInvalid error
  | ClickFails
  | TabLost error
  | NavigatedAway
  | Advanced

text \<open>The environment of a run, by listing page and index in the page's queue. The two
  pause fields say whether the user's pause command arrives while that item is in flight,
  or while the navigation away from that page is awaited.\<close>

record env =
  startPageDetected :: int
  pageResponse :: "int \<Rightarrow> page_response"
  itemOutcome :: "int \<Rightarrow> nat \<Rightarrow> item_outcome"
  advance :: "int \<Rightarrow> advance_outcome"
  pauseDuring :: "int \<Rightarrow> nat \<Rightarrow> bool"
  pauseDuringAdvance :: "int \<Rightarrow> bool"

subsection \<open>Ending, stopping, pausing\<close>

definition run_stats :: "coordinator \<Rightarrow> stats" where
  "run_stats w =
     \<lparr>totalProcessed = processedCompanies w, totalFound = totalCompaniesFound w,
      pagesScraped = currentPage w, errorCount = length (errors w)\<rparr>"

text \<open>\<^verbatim>\<open>if (this.activeTabId) { remove it; this.activeTabId = null }\<close>; tab ids are
  positive.\<close>

definition closeActiveTab :: "coordinator \<Rightarrow> coordinator" where
  "closeActiveTab w =
     (case activeTabId w of
        None \<Rightarrow> w
      | Some t \<Rightarrow> w\<lparr>openTabs := removeAll t (openTabs w), activeTabId := None\<rparr>)"

definition completeScraping :: "coordinator \<Rightarrow> coordinator" where
  "completeScraping w =
     (let w1 = closeActiveTab (w\<lparr>isRunning := False, isPaused := False\<rparr>)
      in w1\<lparr>ui := ui w1 @ [ScrapingComplete (run_stats w1)]\<rparr>)"

definition stopScraping :: "coordinator \<Rightarrow> coordinator" where
  "stopScraping w =
     (let w1 = closeActiveTab (w\<lparr>isRunning := False, isPaused := False\<rparr>)
      in w1\<lparr>ui := ui w1 @ [ScrapingStopped (run_stats w1)]\<rparr>)"

definition pauseScraping :: "coordinator \<Rightarrow> coordinator" where
  "pauseScraping w = w\<lparr>isPaused := True, ui := ui w @ [ScrapingPaused]\<rparr>"

subsection \<open>One item\<close>

text \<open>The object literals \<^verbatim>\<open>{ url: ..., name: ... }\<close> the coordinator checks.\<close>

definition candidate :: "jsval \<Rightarrow> jsval \<Rightarrow> company" where
  "candidate u n =
     \<lparr>name = n, website = JUndefined, industry = JUndefined, phone = JUndefined,
      headquarters = JUndefined, url = u, timestamp = JUndefined\<rparr>"

text \<open>\<^verbatim>\<open>aboutUrl\<close>: the URL itself when it contains "/about/", else the URL without one
  trailing slash, followed by "/about/".\<close>

definition aboutUrl :: "string \<Rightarrow> string" where
  "aboutUrl u =
     (if str_includes ''/about/'' u then u
      else (if u \<noteq> [] \<and> last u = CHR ''/'' then butlast u else u) @ ''/about/'')"

definition openTab :: "string \<Rightarrow> coordinator \<Rightarrow> coordinator" where
  "openTab u w =
     w\<lparr>tabCounter := tabCounter w + 1, openTabs := openTabs w @ [tabCounter w + 1],
       created := created w @ [u], activeTabId := Some (tabCounter w + 1)\<rparr>"

text \<open>The \<^verbatim>\<open>catch\<close> block of \<open>processCompany\<close>.\<close>

definition failCompany :: "jsval \<Rightarrow> error \<Rightarrow> coordinator \<Rightarrow> coordinator" where
  "failCompany companyUrl e w =
     closeActiveTab (w\<lparr>errors := errors w @ [CompanyError companyUrl e]\<rparr>)"

text \<open>The branch of \<open>processCompany\<close> for a usable extraction reply: the record is
  saved behind the duplicate check, and counted whether it was added or not. The
  exception is the one of the check.\<close>

definition recordCompany :: "company \<Rightarrow> coordinator \<Rightarrow> error + coordinator" where
  "recordCompany d w =
     (case saveCompanyData d (store w) of
        (Inl e, st) \<Rightarrow> Inl e
      | (Inr wasAdded, st) \<Rightarrow>
          (let w2 = w\<lparr>store := st, processedCompanies := processedCompanies w + 1\<rparr>
           in Inr (if wasAdded
                   then w2\<lparr>ui := ui w2 @ [CompanyScraped d (processedCompanies w2)]\<rparr>
                   else w2)))"

text \<open>The \<^verbatim>\<open>try\<close> block of \<open>processCompany\<close> with its \<^verbatim>\<open>catch\<close>: a queue entry that is
  not a string has no \<^verbatim>\<open>includes\<close>, which throws before a tab is created. The two
  statements that end the \<^verbatim>\<open>try\<close> block remove the tab just created, which is the
  active one.\<close>

definition visitCompany :: "env \<Rightarrow> jsval \<Rightarrow> coordinator \<Rightarrow> coordinator" where
  "visitCompany env companyUrl w =
     (case companyUrl of
        JStr u \<Rightarrow>
          (case itemOutcome env (currentPage w) (currentCompanyIndex w) of
             CreateFails e \<Rightarrow> failCompany companyUrl e w
           | LoadFails e \<Rightarrow> failCompany companyUrl e (openTab (aboutUrl u) w)
           | ExtractFails \<Rightarrow>
               failCompany companyUrl (Error ''Failed to extract company data'')
                 (openTab (aboutUrl u) w)
           | Extracted d \<Rightarrow>
               (case recordCompany d (openTab (aboutUrl u) w) of
                  Inl e \<Rightarrow> failCompany companyUrl e (openTab (aboutUrl u) w)
                | Inr w3 \<Rightarrow> closeActiveTab w3)
           | CloseFails d e \<Rightarrow>
               (case recordCompany d (openTab (aboutUrl u) w) of
                  Inl e' \<Rightarrow> failCompany companyUrl e' (openTab (aboutUrl u) w)
                | Inr w3 \<Rightarrow> failCompany companyUrl e w3))
      | _ \<Rightarrow> failCompany companyUrl TypeError w)"

text \<open>\<^verbatim>\<open>processCompany(companyUrl)\<close>. The second component is an exception that leaves the
  function: the duplicate check in front of the \<^verbatim>\<open>try\<close> block is not guarded.\<close>

definition processCompany :: "env \<Rightarrow> jsval \<Rightarrow> coordinator \<Rightarrow> coordinator \<times> error option" where
  "processCompany env companyUrl w =
     (case isDuplicateCompany (Some (candidate companyUrl (JStr []))) (getCompanies (store w)) of
        Inl e \<Rightarrow> (w, Some e)
      | Inr True \<Rightarrow>
          (w\<lparr>processedCompanies := processedCompanies w + 1,
             ui := ui w @ [StatusUpdate (SkippedDuplicate companyUrl)]\<rparr>, None)
      | Inr False \<Rightarrow>
          (visitCompany env companyUrl
             (w\<lparr>ui := ui w @ [StatusUpdate (ScrapingCompany (processedCompanies w + 1))]\<rparr>),
           None))"

subsection \<open>The queue of a page\<close>

text \<open>A pause command that arrives while item \<open>i\<close> is in flight runs \<open>pauseScraping\<close>
  between two of the item's suspension points; the item does not read the flag, so the
  command is applied when the item has finished.\<close>

definition userEvents :: "env \<Rightarrow> nat \<Rightarrow> coordinator \<Rightarrow> coordinator" where
  "userEvents env i w = (if pauseDuring env (currentPage w) i then pauseScraping w else w)"

text \<open>The \<^verbatim>\<open>for\<close> loop of \<open>processCompanyQueue\<close> from index \<open>i\<close>, over the entries from
  that index on; the queue is not assigned while the loop runs.\<close>

fun queueFrom ::
  "env \<Rightarrow> nat \<Rightarrow> jsval list \<Rightarrow> coordinator \<Rightarrow> coordinator \<times> error option" where
  "queueFrom env i [] w = (w, None)"
| "queueFrom env i (companyUrl # rest) w =
     (if \<not> isRunning w \<or> isPaused w then (w, None)
      else case processCompany env companyUrl (w\<lparr>currentCompanyIndex := i\<rparr>) of
             (w', Some e) \<Rightarrow> (w', Some e)
           | (w', None) \<Rightarrow> queueFrom env (Suc i) rest (userEvents env i w'))"

definition processCompanyQueue :: "env \<Rightarrow> coordinator \<Rightarrow> coordinator \<times> error option" where
  "processCompanyQueue env w = queueFrom env 0 (companyQueue w) w"

subsection \<open>One listing page\<close>

definition companyToCheck :: "listing_item \<Rightarrow> company" where
  "companyToCheck c =
     candidate (if truthy (item_url c) then item_url c else JObj)
               (if truthy (item_name c) then item_name c else JStr [])"

text \<open>The pre-filter loop: the new entries and the skipped ones, or the exception of the
  first check that throws.\<close>

fun preFilter :: "listing_item list \<Rightarrow> company list \<Rightarrow> error + company list \<times> company list" where
  "preFilter [] existing = Inr ([], [])"
| "preFilter (c # cs) existing =
     (case isDuplicateCompany (Some (companyToCheck c)) existing of
        Inl e \<Rightarrow> Inl e
      | Inr dup \<Rightarrow>
          (case preFilter cs existing of
             Inl e \<Rightarrow> Inl e
           | Inr (filtered, skipped) \<Rightarrow>
               Inr (if dup then (filtered, companyToCheck c # skipped)
                    else (companyToCheck c # filtered, skipped))))"

text \<open>\<open>processCurrentPage\<close> from its status notification to the end of the work on the
  page's items, in front of the decision to advance or to complete. The second component
  is an exception for the \<^verbatim>\<open>catch\<close> block of \<open>processCurrentPage\<close>.\<close>

definition scrapePage :: "env \<Rightarrow> coordinator \<Rightarrow> coordinator \<times> error option" where
  "scrapePage env w =
     (let w0 = w\<lparr>ui := ui w @ [StatusUpdate (ProcessingPage (currentPage w))],
                 listingLog := listingLog w @ [(currentPage w, ExtractCompanyURLs)]\<rparr>
      in case pageResponse env (currentPage w) of
           Failure msg \<Rightarrow>
             (w0, Some (Error (''Failed to extract company URLs: ''
                @ (case msg of None \<Rightarrow> ''Unknown error''
                   | Some m \<Rightarrow> if m = [] then ''Unknown error'' else m))))
         | InvalidFormat \<Rightarrow> (w0, Some (Error ''Invalid response format from content script''))
         | Companies companiesData \<Rightarrow>
             if companiesData = []
             then (w0\<lparr>ui := ui w0 @ [StatusUpdate (NoCompaniesFound (currentPage w0))],
                      companyQueue := []\<rparr>, None)
             else
               (case preFilter companiesData (getCompanies (store w0)) of
                  Inl e \<Rightarrow> (w0, Some e)
                | Inr (filtered, skipped) \<Rightarrow>
                    (let w1 = w0\<lparr>companyQueue := map url filtered,
                                 totalCompaniesFound :=
                                   totalCompaniesFound w0 + length companiesData,
                                 currentCompanyIndex := 0,
                                 ui := ui w0
                                   @ [CompaniesFound (length companiesData) (currentPage w0)]\<rparr>;
                         w2 = (if skipped \<noteq> []
                               then w1\<lparr>ui := ui w1
                                      @ [StatusUpdate (PageSummary (currentPage w1)
                                           (length filtered) (length skipped))]\<rparr>
                               else w1)
                     in if filtered \<noteq> [] then processCompanyQueue env w2
                        else (w2\<lparr>ui := ui w2
                                 @ [StatusUpdate (AllCollected (currentPage w2))]\<rparr>, None))))"

text \<open>The \<^verbatim>\<open>catch\<close> blocks of \<open>processCurrentPage\<close> and of \<open>goToNextPage\<close>.\<close>

definition pageFailed :: "error \<Rightarrow> coordinator \<Rightarrow> coordinator" where
  "pageFailed e w =
     completeScraping
       (w\<lparr>errors := errors w @ [PageError (currentPage w) e],
          ui := ui w @ [StatusUpdate (ErrorStatus e)]\<rparr>)"

definition paginationFailed :: "error \<Rightarrow> coordinator \<Rightarrow> coordinator" where
  "paginationFailed e w =
     completeScraping
       (w\<lparr>errors := errors w @ [PaginationError (currentPage w + 1) e],
          ui := ui w @ [StatusUpdate (NavigationError e)]\<rparr>)"

text \<open>\<open>goToNextPage\<close> up to the click: the \<^verbatim>\<open>checkPagination\<close> and \<^verbatim>\<open>clickNextPage\<close>
  messages; and after a successful click: the page counter moves on.\<close>

definition askedToClick :: "coordinator \<Rightarrow> coordinator" where
  "askedToClick w =
     w\<lparr>listingLog := listingLog w
         @ [(currentPage w, CheckPagination), (currentPage w, ClickNextPage)]\<rparr>"

definition clicked :: "coordinator \<Rightarrow> coordinator" where
  "clicked w = (askedToClick w)\<lparr>currentPage := currentPage w + 1\<rparr>"

definition arrive :: "env \<Rightarrow> coordinator \<Rightarrow> coordinator" where
  "arrive env w = (if pauseDuringAdvance env (currentPage w - 1) then pauseScraping w else w)"

subsection \<open>The drive loop\<close>

text \<open>\<open>processCurrentPage\<close> and \<open>goToNextPage\<close> call each other. The recursion ends
  because work on a page's items leaves the three page fields alone, an advance is only
  attempted while pages of the budget are left, and each advance uses one up.\<close>

definition pagesLeft :: "coordinator \<Rightarrow> nat" where
  "pagesLeft w = nat (startPage w + maxPages w - currentPage w - 1)"

definition same_pages :: "coordinator \<Rightarrow> coordinator \<Rightarrow> bool" where
  "same_pages w w' \<longleftrightarrow>
     currentPage w' = currentPage w \<and> startPage w' = startPage w \<and> maxPages w' = maxPages w"

lemma same_pages_refl [simp]: "same_pages w w"
  by (simp add: same_pages_def)

lemma same_pages_trans: "same_pages w w1 \<Longrightarrow> same_pages w1 w2 \<Longrightarrow> same_pages w w2"
  by (simp add: same_pages_def)

lemma same_pages_closeActiveTab [simp]: "same_pages w (closeActiveTab w)"
  by (simp add: same_pages_def closeActiveTab_def split: option.splits)

lemma same_pages_visitCompany: "same_pages w (visitCompany env u w)"
  by (simp add: same_pages_def visitCompany_def recordCompany_def failCompany_def
        closeActiveTab_def openTab_def Let_def
      split: jsval.splits item_outcome.splits prod.splits sum.splits option.splits)

lemma same_pages_processCompany: "same_pages w (fst (processCompany env u w))"
  using same_pages_visitCompany
  by (auto simp: processCompany_def same_pages_def split: sum.splits bool.splits)

lemma same_pages_userEvents [simp]: "same_pages w (userEvents env i w)"
  by (simp add: same_pages_def userEvents_def pauseScraping_def)

lemma same_pages_queueFrom: "same_pages w (fst (queueFrom env i us w))"
proof (induction us arbitrary: i w)
  case Nil
  then show ?case by simp
next
  case (Cons u us)
  show ?case
  proof (cases "\<not> isRunning w \<or> isPaused w")
    case True
    then show ?thesis by simp
  next
    case False
    obtain w' r where p: "processCompany env u (w\<lparr>currentCompanyIndex := i\<rparr>) = (w', r)"
      by (cases "processCompany env u (w\<lparr>currentCompanyIndex := i\<rparr>)")
    have s1: "same_pages w w'"
      using same_pages_processCompany [of "w\<lparr>currentCompanyIndex := i\<rparr>" env u] p
      by (simp add: same_pages_def)
    show ?thesis
    proof (cases r)
      case (Some e)
      with False p s1 show ?thesis by simp
    next
      case None
      have "same_pages w' (userEvents env i w')" by simp
      with s1 have "same_pages w (userEvents env i w')" by (rule same_pages_trans)
      with Cons.IH [where i = "Suc i" and w = "userEvents env i w'"] False p None
      show ?thesis
        using same_pages_trans by auto
    qed
  qed
qed

lemma same_pages_scrapePage: "same_pages w (fst (scrapePage env w))"
proof -
  have "same_pages w (fst (queueFrom env 0 (companyQueue w2) w2))"
    if "same_pages w w2" for w2
    using that same_pages_queueFrom same_pages_trans by blast
  then show ?thesis
    by (auto simp: scrapePage_def processCompanyQueue_def Let_def same_pages_def
             split: page_response.splits sum.splits prod.splits)
qed

function processCurrentPage :: "env \<Rightarrow> coordinator \<Rightarrow> coordinator"
     and goToNextPage :: "env \<Rightarrow> coordinator \<Rightarrow> coordinator" where
  "processCurrentPage env w =
     (if \<not> isRunning w \<or> isPaused w then w
      else case scrapePage env w of
             (w1, Some e) \<Rightarrow> pageFailed e w1
           | (w1, None) \<Rightarrow>
               if isRunning w1 \<and> \<not> isPaused w1
                  \<and> currentPage w1 - startPage w1 + 1 < maxPages w1
               then goToNextPage env w1
               else completeScraping w1)"
| "goToNextPage env w =
     (case advance env (currentPage w) of
        TabInvalid e \<Rightarrow> paginationFailed e w
      | ClickFails \<Rightarrow>
          if companyQueue w = [] \<and> processedCompanies w = 0
          then paginationFailed
                 (Error (''No pagination button found and no companies extracted. ''
                    @ ''Might not be on a valid search results page.''))
                 (askedToClick w)
          else completeScraping (askedToClick w)
      | TabLost e \<Rightarrow> paginationFailed e (clicked w)
      | NavigatedAway \<Rightarrow>
          paginationFailed (Error ''Navigation took us away from search results page'')
            (clicked w)
      | Advanced \<Rightarrow> processCurrentPage env (arrive env (clicked w)))"
  by pat_completeness auto
termination
proof (relation "measure (\<lambda>x. case x of
          Inl (env, w) \<Rightarrow> 2 * pagesLeft w + 1
        | Inr (env, w) \<Rightarrow> max (2 * pagesLeft w) 2)", goal_cases)
  case 1
  then show ?case by simp
next
  case (2 env w x1 x2)
  then have s: "same_pages w x1"
    using same_pages_scrapePage [of w env] by (metis fst_conv)
  with 2 have "currentPage x1 - startPage x1 + 1 < maxPages x1"
    by (simp add: same_pages_def)
  then have "1 \<le> pagesLeft x1"
    unfolding pagesLeft_def by linarith
  moreover from s have "pagesLeft x1 = pagesLeft w"
    by (simp add: pagesLeft_def same_pages_def)
  ultimately show ?case by simp
next
  case (3 env w)
  then show ?case
    by (auto simp: pagesLeft_def arrive_def clicked_def askedToClick_def pauseScraping_def)
qed

declare processCurrentPage.simps [simp del] goToNextPage.simps [simp del]

text \<open>\<^verbatim>\<open>startScraping(searchTabId, maxPages)\<close>; the page the listing is on comes from the
  tab's URL or from the page's content.\<close>

definition startScraping :: "env \<Rightarrow> int \<Rightarrow> coordinator \<Rightarrow> coordinator" where
  "startScraping env pages w =
     processCurrentPage env
       (w\<lparr>isRunning := True, isPaused := False, maxPages := pages,
          startPage := startPageDetected env, currentPage := startPageDetected env,
          processedCompanies := 0, totalCompaniesFound := 0, companyQueue := [],
          currentCompanyIndex := 0, errors := [], ui := ui w @ [ScrapingStarted]\<rparr>)"

text \<open>\<^verbatim>\<open>resumeScraping()\<close>: the flag is cleared and, when the run is marked running,
  \<open>processCompanyQueue\<close> is called, whose loop starts at index 0.\<close>

definition resumeScraping :: "env \<Rightarrow> coordinator \<Rightarrow> coordinator" where
  "resumeScraping env w =
     (let w1 = w\<lparr>isPaused := False, ui := ui w @ [ScrapingResumed]\<rparr>
      in if isRunning w1 then fst (processCompanyQueue env w1) else w1)"

text \<open>The listing pages whose entries were requested, and those a click was sent from.\<close>

definition visited :: "coordinator \<Rightarrow> int list" where
  "visited w = map fst (filter (\<lambda>e. snd e = ExtractCompanyURLs) (listingLog w))"

definition clicks :: "coordinator \<Rightarrow> int list" where
  "clicks w = map fst (filter (\<lambda>e. snd e = ClickNextPage) (listingLog w))"

subsection \<open>The page budget\<close>

text \<open>A state within its budget: the current page is one of the \<open>maxPages\<close> pages from the
  start page on, every message to the listing tab was sent from a page between the start
  page and the current one, every click on "next" was sent from a page before the last
  one of the budget, and no page had its entries requested twice.\<close>

definition within_budget :: "coordinator \<Rightarrow> bool" where
  "within_budget w \<longleftrightarrow>
     startPage w \<le> currentPage w \<and> currentPage w - startPage w + 1 \<le> maxPages w
     \<and> (\<forall>e\<in>set (listingLog w). startPage w \<le> fst e \<and> fst e \<le> currentPage w)
     \<and> (\<forall>p\<in>set (clicks w). p - startPage w + 1 < maxPages w)
     \<and> distinct (visited w)"

text \<open>A run that has ended by \<open>completeScraping\<close>.\<close>

definition completed :: "coordinator \<Rightarrow> bool" where
  "completed w \<longleftrightarrow>
     \<not> isRunning w \<and> \<not> isPaused w \<and> ui w \<noteq> []
     \<and> last (ui w) = ScrapingComplete (run_stats w)"

text \<open>What a call of \<open>processCurrentPage\<close> or \<open>goToNextPage\<close> in state \<open>w\<close> leaves behind:
  a state within the same budget, which is completed if the last page of the budget had
  its entries requested.\<close>

definition budget_kept :: "coordinator \<Rightarrow> coordinator \<Rightarrow> bool" where
  "budget_kept w w' \<longleftrightarrow>
     within_budget w' \<and> startPage w' = startPage w \<and> maxPages w' = maxPages w
     \<and> (startPage w + maxPages w - 1 \<in> set (visited w') \<longrightarrow> completed w')"
section \<open>Records used as examples\<close>

definition listed :: "string \<Rightarrow> string \<Rightarrow> company" where
  "listed n u =
     \<lparr>name = JStr n, website = JStr ''N/A'', industry = JStr ''N/A'', phone = JStr ''N/A'',
      headquarters = JStr ''N/A'', url = JStr u, timestamp = JStr ''2024-01-01T00:00:00.000Z''\<rparr>"


text \<open>An entry of a listing, an environment in which every listing page is empty and nothing
  is paused, and a coordinator that is running on page 1.\<close>

definition entry :: "string \<Rightarrow> string \<Rightarrow> listing_item" where
  "entry n u = \<lparr>item_url = JStr u, item_name = JStr n\<rparr>"

definition calm :: env where
  "calm =
     \<lparr>startPageDetected = 1, pageResponse = (\<lambda>p. Companies []),
      itemOutcome = (\<lambda>p i. ExtractFails), advance = (\<lambda>p. Advanced),
      pauseDuring = (\<lambda>p i. False), pauseDuringAdvance = (\<lambda>p. False)\<rparr>"

definition running :: "storage \<Rightarrow> coordinator" where
  "running st = (new_ScraperCoordinator st)\<lparr>isRunning := True\<rparr>"

text \<open>An environment in which the tab of every item fails to load.\<close>

definition stalling :: env where
  "stalling = calm\<lparr>itemOutcome := (\<lambda>p i. LoadFails (Error ''Tab load timeout''))\<rparr>"

text \<open>A store of two records, and a listing page of three entries of which the first and
  the last are pages of the stored records; the visit of the only new entry returns its
  record.\<close>

definition stored :: "company list" where
  "stored =
     [listed ''Acme Corporation'' ''https://www.linkedin.com/company/acme'',
      listed ''Crux'' ''https://www.linkedin.com/company/crux'']"

definition listing :: env where
  "listing =
     calm\<lparr>pageResponse := (\<lambda>p. Companies
              [entry ''Acme'' ''https://www.linkedin.com/company/acme/'',
               entry ''Bolt'' ''https://www.linkedin.com/company/bolt/'',
               entry ''Crux Ltd'' ''https://www.linkedin.com/company/crux/'']),
          itemOutcome := (\<lambda>p i. Extracted
              (listed ''Bolt'' ''https://www.linkedin.com/company/bolt''))\<rparr>"

text \<open>A listing whose pages each show the same three companies, none of them stored. In
  \<open>interrupted\<close> every visit returns the company's record and the user pauses while the
  first item of page 1 is in flight. In \<open>interrupted_later\<close> the tab of the second item
  fails to load and the user pauses while the coordinator waits for page 2.\<close>

definition three :: "listing_item list" where
  "three =
     [entry ''Acme'' ''https://www.linkedin.com/company/acme/'',
      entry ''Bolt'' ''https://www.linkedin.com/company/bolt/'',
      entry ''Crux'' ''https://www.linkedin.com/company/crux/'']"

definition page_record :: "nat \<Rightarrow> company" where
  "page_record i =
     (if i = 0 then listed ''Acme'' ''https://www.linkedin.com/company/acme''
      else if i = 1 then listed ''Bolt'' ''https://www.linkedin.com/company/bolt''
      else listed ''Crux'' ''https://www.linkedin.com/company/crux'')"

definition interrupted :: env where
  "interrupted =
     calm\<lparr>pageResponse := (\<lambda>p. Companies three),
          itemOutcome := (\<lambda>p i. Extracted (page_record i)),
          pauseDuring := (\<lambda>p i. p = 1 \<and> i = 0)\<rparr>"

definition interrupted_later :: env where
  "interrupted_later =
     calm\<lparr>pageResponse := (\<lambda>p. Companies three),
          itemOutcome := (\<lambda>p i. if i = 1 then LoadFails (Error ''Tab load timeout'')
                                 else Extracted (page_record i)),
          pauseDuringAdvance := (\<lambda>p. p = 1)\<rparr>"

text \<open>What is read off a state in the examples, and off the state that \<open>resumeScraping\<close>
  makes of it.\<close>

definition observed ::
  "coordinator \<Rightarrow> bool \<times> bool \<times> nat \<times> nat \<times> nat \<times> string list \<times> int list" where
  "observed w =
     (isRunning w, isPaused w, currentCompanyIndex w, length (companyQueue w),
      processedCompanies w, created w, visited w)"

definition then_resumed ::
  "env \<Rightarrow> coordinator \<Rightarrow>
     (bool \<times> bool \<times> nat \<times> nat \<times> nat \<times> string list \<times> int list) \<times> notification
     \<times> (bool \<times> bool \<times> nat \<times> nat \<times> nat \<times> string list \<times> int list)" where
  "then_resumed env w = (observed w, last (ui w), observed (resumeScraping env w))"
section \<open>Store insertion\<close>

text \<open>
  C9. For every candidate record and every stored collection: when the candidate is a
  duplicate per \<open>isDuplicateCompany\<close>, \<open>saveCompanyData\<close> returns false and leaves the
  storage as it was; when it is not, the stored collection becomes the old one with
  exactly that record appended at the end and the call returns true. In either case the
  records that were there stay, in order, as a prefix of the collection.
\<close>

theorem saveCompanyData_gated:
  "(isDuplicateCompany (Some c) (getCompanies st) = Inr True
      \<longrightarrow> saveCompanyData c st = (Inr False, st))
   \<and> (isDuplicateCompany (Some c) (getCompanies st) = Inr False
      \<longrightarrow> saveCompanyData c st = (Inr True, Some (getCompanies st @ [c])))
   \<and> prefix (getCompanies st) (getCompanies (snd (saveCompanyData c st)))"
  by (auto simp: saveCompanyData_def getCompanies_def split: sum.splits bool.splits option.splits)

theorem saveCompanyData_gated_witness:
  "isDuplicateCompany (Some (listed ''Acme'' ''https://www.linkedin.com/company/acme''))
      (getCompanies (Some [listed ''Acme Inc.'' ''N/A''])) = Inr True
   \<and> saveCompanyData (listed ''Acme'' ''https://www.linkedin.com/company/acme'')
        (Some [listed ''Acme Inc.'' ''N/A''])
      = (Inr False, Some [listed ''Acme Inc.'' ''N/A''])
   \<and> isDuplicateCompany (Some (listed ''Acme'' ''https://www.linkedin.com/company/acme''))
        (getCompanies None) = Inr False
   \<and> saveCompanyData (listed ''Acme'' ''https://www.linkedin.com/company/acme'') None
      = (Inr True, Some [listed ''Acme'' ''https://www.linkedin.com/company/acme''])"
proof -
  let ?c = "listed ''Acme'' ''https://www.linkedin.com/company/acme''"
  let ?st = "Some [listed ''Acme Inc.'' ''N/A'']"
  have dup: "isDuplicateCompany (Some ?c) (getCompanies ?st) = Inr True"
    by code_simp
  have new: "isDuplicateCompany (Some ?c) (getCompanies None) = Inr False"
    by code_simp
  have empty: "getCompanies None = []"
    by (simp add: getCompanies_def)
  from dup new empty saveCompanyData_gated [of ?c ?st] saveCompanyData_gated [of ?c None]
  show ?thesis by simp
qed

section \<open>Sentinel identity\<close>

lemma normalizeUrl_sentinel:
  "\<not> truthy u \<or> u = JStr ''N/A'' \<or> (\<forall>s. u \<noteq> JStr s) \<Longrightarrow> normalizeUrl u = None"
  by (cases u) auto

lemma normalizeName_sentinel:
  "\<not> truthy n \<or> n = JStr ''N/A'' \<Longrightarrow> normalizeName n = Inr None"
  by (cases n) auto

lemma extractCompanySlug_None: "normalizeUrl u = None \<Longrightarrow> extractCompanySlug u = None"
  by (cases u) auto

text \<open>
  C10. A \<^verbatim>\<open>null\<close> candidate is never a duplicate. A candidate whose url and name both
  normalize to \<^verbatim>\<open>null\<close> has no slug either, is reported as not a duplicate against every
  collection, and so \<open>saveCompanyData\<close> appends it to every store, again and again. The url
  normalizes to \<^verbatim>\<open>null\<close> when it is missing or falsy, not a string, or the "N/A" sentinel;
  the name does when it is missing or falsy, or the sentinel.
\<close>

theorem sentinel_identity_never_duplicate:
  "isDuplicateCompany None cs = Inr False
   \<and> (normalizeUrl (url c) = None \<and> normalizeName (name c) = Inr None
      \<longrightarrow> extractCompanySlug (url c) = None
          \<and> isDuplicateCompany (Some c) cs = Inr False
          \<and> saveCompanyData c st = (Inr True, Some (getCompanies st @ [c])))
   \<and> (\<not> truthy u \<or> u = JStr ''N/A'' \<or> (\<forall>s. u \<noteq> JStr s) \<longrightarrow> normalizeUrl u = None)
   \<and> (\<not> truthy n \<or> n = JStr ''N/A'' \<longrightarrow> normalizeName n = Inr None)"
  using normalizeUrl_sentinel [of u] normalizeName_sentinel [of n]
  by (auto simp: saveCompanyData_def extractCompanySlug_None)

theorem sentinel_identity_never_duplicate_witness:
  "normalizeUrl (url (listed ''N/A'' ''N/A'')) = None
   \<and> normalizeName (name (listed ''N/A'' ''N/A'')) = Inr None
   \<and> isDuplicateCompany (Some (listed ''N/A'' ''N/A'')) [listed ''N/A'' ''N/A''] = Inr False
   \<and> saveCompanyData (listed ''N/A'' ''N/A'') (Some [listed ''N/A'' ''N/A''])
      = (Inr True, Some [listed ''N/A'' ''N/A'', listed ''N/A'' ''N/A''])
   \<and> normalizeUrl (JNum 7) = None
   \<and> normalizeName JUndefined = Inr None"
proof -
  let ?c = "listed ''N/A'' ''N/A''"
  have u: "normalizeUrl (url ?c) = None" by (simp add: listed_def)
  have n: "normalizeName (name ?c) = Inr None" by (simp add: listed_def)
  from u n
    sentinel_identity_never_duplicate [of "[?c]" ?c "Some [?c]" "JNum 7" JUndefined]
  show ?thesis by (simp add: getCompanies_def)
qed

section \<open>What the matcher computes\<close>

lemma normalizeUrl_nonempty: "normalizeUrl v = Some s \<Longrightarrow> s \<noteq> []"
  by (cases v) (auto simp: Let_def company_path_def split: option.splits if_splits)

lemma match_company_nonempty: "match_company s = Some g \<Longrightarrow> g \<noteq> []"
  by (induction s) (auto split: if_splits)

lemma extractCompanySlug_alt:
  "extractCompanySlug v
   = (case normalizeUrl v of None \<Rightarrow> None | Some normalized \<Rightarrow> match_company normalized)"
  by (cases v) simp_all

declare normalizeUrl.simps [simp del] extractCompanySlug.simps [simp del]

lemma extractCompanySlug_nonempty: "extractCompanySlug v = Some g \<Longrightarrow> g \<noteq> []"
  by (auto simp: extractCompanySlug_alt split: option.splits dest: match_company_nonempty)

lemma truthy_normalizeUrl [simp]: "truthy_str (normalizeUrl v) \<longleftrightarrow> normalizeUrl v \<noteq> None"
  by (cases "normalizeUrl v") (auto dest: normalizeUrl_nonempty)

lemma truthy_extractCompanySlug [simp]:
  "truthy_str (extractCompanySlug v) \<longleftrightarrow> extractCompanySlug v \<noteq> None"
  by (cases "extractCompanySlug v") (auto dest: extractCompanySlug_nonempty)

lemma sp_extractCompanySlug_eq: "sp_extractCompanySlug v = extractCompanySlug v"
  by (simp add: sp_extractCompanySlug_def extractCompanySlug_alt)

text \<open>The side panel's copy computes what the service worker's matcher computes.\<close>

lemma isDuplicate_eq: "isDuplicate cs c = isDuplicateCompany c cs"
proof -
  have "sp_url_callback = url_callback"
    by (intro ext)
       (simp add: sp_url_callback_def url_callback_def sp_extractCompanySlug_eq
             split: option.splits)
  moreover have "sp_slug_callback = slug_callback"
    by (intro ext) (simp add: sp_slug_callback_def slug_callback_def sp_extractCompanySlug_eq)
  ultimately show ?thesis
    by (cases c) (simp_all add: sp_extractCompanySlug_eq Let_def split: sum.splits)
qed

lemma find_throwing_total:
  "\<forall>x\<in>set xs. \<exists>b. p x = Inr b \<Longrightarrow> find_throwing p xs = Inr (find (\<lambda>x. p x = Inr True) xs)"
  by (induction xs) (auto split: sum.splits bool.splits)

lemma find_ex: "find P xs \<noteq> None \<longleftrightarrow> (\<exists>x\<in>set xs. P x)"
  by (auto simp: find_None_iff)

lemma name_typed_normalizeName: "name_typed c \<Longrightarrow> \<exists>r. normalizeName (name c) = Inr r"
  by (cases "name c") (auto simp: name_typed_def)

lemma name_callback_typed:
  "name_typed e \<Longrightarrow> normalizeName (name c) = Inr (Some n) \<Longrightarrow> n \<noteq> []
     \<Longrightarrow> name_callback n e = Inr (by_guarded_name c e)"
  by (cases "name e")
     (auto simp: name_typed_def name_callback_def by_guarded_name_def name_comparable_def
                 by_name_def by_fuzzy_name_def Let_def)

lemma url_callback_iff:
  "normalizeUrl (url c) \<noteq> None \<Longrightarrow>
   url_callback (normalizeUrl (url c)) (extractCompanySlug (url c)) e
     \<longleftrightarrow> by_url c e
          \<or> (normalizeUrl (url e) \<noteq> None
              \<and> str_includes company_path (the (normalizeUrl (url e))) \<and> by_slug c e)"
  by (auto simp: url_callback_def by_url_def by_slug_def Let_def
           split: option.splits dest: normalizeUrl_nonempty)

lemma slug_callback_iff: "slug_callback (extractCompanySlug (url c)) e \<longleftrightarrow> by_slug c e"
  by (cases "extractCompanySlug (url c)") (auto simp: slug_callback_def by_slug_def Let_def)

lemma isDuplicateCompany_unfold:
  assumes r: "normalizeName (name c) = Inr r"
  shows "isDuplicateCompany (Some c) cs
   = (if normalizeUrl (url c) \<noteq> None
         \<and> (\<exists>e\<in>set cs. url_callback (normalizeUrl (url c)) (extractCompanySlug (url c)) e)
      then Inr True
      else if \<exists>e\<in>set cs. by_slug c e then Inr True
      else if truthy_str r
      then (case find_throwing (name_callback (the r)) cs of
              Inl e \<Rightarrow> Inl e
            | Inr duplicateByName \<Rightarrow> Inr (duplicateByName \<noteq> None))
      else Inr False)"
proof -
  have A: "truthy_str (normalizeUrl (url c))
        \<and> find (url_callback (normalizeUrl (url c)) (extractCompanySlug (url c))) cs \<noteq> None
     \<longleftrightarrow> normalizeUrl (url c) \<noteq> None
        \<and> (\<exists>e\<in>set cs. url_callback (normalizeUrl (url c)) (extractCompanySlug (url c)) e)"
    by (simp only: find_ex truthy_normalizeUrl)
  have B: "truthy_str (extractCompanySlug (url c))
        \<and> find (slug_callback (extractCompanySlug (url c))) cs \<noteq> None
     \<longleftrightarrow> (\<exists>e\<in>set cs. by_slug c e)"
    unfolding find_ex slug_callback_iff truthy_extractCompanySlug
    by (auto simp: by_slug_def)
  show ?thesis
    unfolding isDuplicateCompany.simps Let_def r sum.case A B ..
qed

declare isDuplicateCompany.simps(2) [simp del] isDuplicate.simps(2) [simp del]

text \<open>On records whose names are strings or falsy the matcher returns, and it returns true
  exactly when some existing record matches by URL, by slug, or by a comparable name.\<close>

lemma isDuplicateCompany_char:
  assumes "name_typed c" and "\<forall>e\<in>set cs. name_typed e"
  shows "isDuplicateCompany (Some c) cs
         = Inr (\<exists>e\<in>set cs. by_url c e \<or> by_slug c e \<or> by_guarded_name c e)"
proof -
  obtain r where r: "normalizeName (name c) = Inr r"
    using assms(1) name_typed_normalizeName by blast
  let ?byUrl = "normalizeUrl (url c) \<noteq> None
     \<and> (\<exists>e\<in>set cs. url_callback (normalizeUrl (url c)) (extractCompanySlug (url c)) e)"
  have U1: "?byUrl \<Longrightarrow> \<exists>e\<in>set cs. by_url c e \<or> by_slug c e"
    using url_callback_iff [of c] by blast
  have U2: "\<exists>e\<in>set cs. by_url c e \<Longrightarrow> ?byUrl"
    using url_callback_iff [of c] by (auto simp: by_url_def)
  have no_name: "\<not> truthy_str r \<Longrightarrow> \<not> by_guarded_name c e" for e
    using r by (cases r)
      (auto simp: by_guarded_name_def name_comparable_def split: sum.splits option.splits)
  have named: "find_throwing (name_callback (the r)) cs = Inr (find (by_guarded_name c) cs)"
    if t: "truthy_str r"
  proof -
    from t obtain n where n: "r = Some n" "n \<noteq> []" by (cases r) auto
    have cb: "\<forall>e\<in>set cs. name_callback n e = Inr (by_guarded_name c e)"
      using assms(2) r n name_callback_typed by blast
    then have "find_throwing (name_callback n) cs
               = Inr (find (\<lambda>e. name_callback n e = Inr True) cs)"
      by (intro find_throwing_total) auto
    also have "find (\<lambda>e. name_callback n e = Inr True) cs = find (by_guarded_name c) cs"
      using cb by (intro find_cong) auto
    finally show ?thesis using n by simp
  qed
  show ?thesis
  proof (cases "?byUrl \<or> (\<exists>e\<in>set cs. by_slug c e)")
    case True
    then have "\<exists>e\<in>set cs. by_url c e \<or> by_slug c e \<or> by_guarded_name c e"
      using U1 by blast
    then have rhs: "(\<exists>e\<in>set cs. by_url c e \<or> by_slug c e \<or> by_guarded_name c e) = True"
      by simp
    show ?thesis
      unfolding isDuplicateCompany_unfold [OF r] rhs using True by presburger
  next
    case False
    then have none: "\<forall>e\<in>set cs. \<not> by_url c e" "\<forall>e\<in>set cs. \<not> by_slug c e"
      using U2 by blast+
    then have rhs: "(\<exists>e\<in>set cs. by_url c e \<or> by_slug c e \<or> by_guarded_name c e)
                    = (\<exists>e\<in>set cs. by_guarded_name c e)"
      by blast
    have lhs: "isDuplicateCompany (Some c) cs
               = (if truthy_str r
                  then (case find_throwing (name_callback (the r)) cs of
                          Inl e \<Rightarrow> Inl e
                        | Inr duplicateByName \<Rightarrow> Inr (duplicateByName \<noteq> None))
                  else Inr False)"
      unfolding isDuplicateCompany_unfold [OF r] using False by presburger
    show ?thesis
    proof (cases "truthy_str r")
      case True
      then show ?thesis
        unfolding lhs rhs using find_ex [of "by_guarded_name c" cs] by (simp add: named)
    next
      case False
      then show ?thesis
        unfolding lhs rhs using no_name by simp
    qed
  qed
qed

text \<open>
  C2, as the claim states it, fails: a candidate named "n/a" with no URL and a stored
  record of the same name have equal normalized names (strategy 3), and the matcher
  answers false.
\<close>

theorem claimed_strategies_counterexample:
  "claimed_isDuplicate (listed ''n/a'' '''') [listed ''n/a'' '''']
   \<and> isDuplicateCompany (Some (listed ''n/a'' '''')) [listed ''n/a'' ''''] = Inr False"
  by code_simp

text \<open>
  C2, amended. For a candidate and existing records whose names are strings or falsy,
  \<open>isDuplicateCompany\<close> (and the side panel's \<open>isDuplicate\<close>) returns true if and only if
  some existing record matches by one of the four strategies, where the two name
  strategies (3 and 4) count only when the candidate's normalized name is not empty and
  the existing record's normalized name is neither empty nor "n/a"; otherwise it
  returns false.
\<close>

theorem isDuplicateCompany_strategies:
  assumes "name_typed c" and "\<forall>e\<in>set cs. name_typed e"
  shows "isDuplicateCompany (Some c) cs
           = Inr (\<exists>e\<in>set cs. by_url c e \<or> by_slug c e
                    \<or> (name_comparable c e \<and> (by_name c e \<or> by_fuzzy_name c e)))
         \<and> isDuplicate cs (Some c) = isDuplicateCompany (Some c) cs"
  using isDuplicateCompany_char [OF assms] isDuplicate_eq [of cs "Some c"]
  by (simp add: by_guarded_name_def)

theorem isDuplicateCompany_strategies_witness:
  "name_typed (listed ''Acme'' '''')
   \<and> isDuplicateCompany (Some (listed ''Acme'' ''''))
        [listed ''n/a'' ''https://example.com/'', listed ''Acme Inc.'' ''N/A''] = Inr True
   \<and> name_comparable (listed ''Acme'' '''') (listed ''Acme Inc.'' ''N/A'')
   \<and> by_fuzzy_name (listed ''Acme'' '''') (listed ''Acme Inc.'' ''N/A'')"
proof -
  let ?c = "listed ''Acme'' ''''"
  let ?cs = "[listed ''n/a'' ''https://example.com/'', listed ''Acme Inc.'' ''N/A'']"
  have c: "name_typed ?c" by (simp add: name_typed_def listed_def)
  have cs: "\<forall>e\<in>set ?cs. name_typed e" by (simp add: name_typed_def listed_def)
  have cmp: "name_comparable ?c (listed ''Acme Inc.'' ''N/A'')" by code_simp
  have fuzzy: "by_fuzzy_name ?c (listed ''Acme Inc.'' ''N/A'')" by code_simp
  from cmp fuzzy c isDuplicateCompany_strategies [OF c cs] show ?thesis by simp
qed






section \<open>URL normalization\<close>

lemma slash_code: "(of_char CHR ''/'' :: nat) = 47"
  by code_simp

lemma lower_slash: "lower_char CHR ''/'' = CHR ''/''"
  by code_simp

lemma lower_char_cases:
  "lower_char c = c \<or>
   (((65 \<le> (of_char c :: nat) \<and> (of_char c :: nat) \<le> 90) \<or> (192 \<le> (of_char c :: nat) \<and> (of_char c :: nat) \<le> 222))
     \<and> lower_char c = char_of ((of_char c :: nat) + 32))"
  unfolding lower_char_def Let_def by presburger

lemma lower_char_slash: "lower_char c = CHR ''/'' \<longleftrightarrow> c = CHR ''/''"
proof
  assume a: "lower_char c = CHR ''/''"
  show "c = CHR ''/''"
  proof (rule ccontr)
    assume n: "c \<noteq> CHR ''/''"
    let ?n = "of_char c :: nat"
    from a n lower_char_cases [of c]
    have up: "(65 \<le> ?n \<and> ?n \<le> 90) \<or> (192 \<le> ?n \<and> ?n \<le> 222)"
      and eq: "char_of (?n + 32) = CHR ''/''"
      by metis+
    from eq have "(of_char (char_of (?n + 32) :: char) :: nat) = of_char CHR ''/''"
      by (rule arg_cong)
    then have "(?n + 32) mod 256 = 47"
      unfolding slash_code of_char_of .
    moreover from up have "?n + 32 < 256" by linarith
    ultimately have "?n + 32 = 47" by simp
    with up show False by linarith
  qed
next
  assume "c = CHR ''/''"
  then show "lower_char c = CHR ''/''" using lower_slash by blast
qed

lemma toLowerCase_append [simp]: "toLowerCase (a @ b) = toLowerCase a @ toLowerCase b"
  by (simp add: toLowerCase_def)

lemma toLowerCase_Nil [simp]: "toLowerCase [] = []"
  by (simp add: toLowerCase_def)

lemma toLowerCase_slashes [simp]:
  "toLowerCase (replicate n CHR ''/'') = replicate n CHR ''/''"
  by (induction n) (simp_all add: toLowerCase_def lower_slash)

lemma toLowerCase_lits:
  "toLowerCase ''http://'' = ''http://''" "toLowerCase ''https://'' = ''https://''"
  "toLowerCase ''www.'' = ''www.''" "toLowerCase company_path = company_path"
  by code_simp+


lemma dropWhile_none: "\<forall>c\<in>set s. \<not> P c \<Longrightarrow> dropWhile P s = s"
  by (cases s) auto

lemma trim_clean: "\<forall>c\<in>set s. \<not> is_space c \<Longrightarrow> trim s = s"
  by (simp add: trim_def dropWhile_none)

lemma split_head_clean: "sep \<notin> set a \<Longrightarrow> split_head sep (a @ b) = a @ split_head sep b"
  by (induction a) (auto simp: split_head_def)

lemma split_head_slashes:
  "sep \<noteq> CHR ''/'' \<Longrightarrow>
   split_head sep (b @ replicate n CHR ''/'')
   = split_head sep b @ replicate (if sep \<in> set b then 0 else n) CHR ''/''"
proof (induction b)
  case Nil
  then show ?case by (induction n) (auto simp: split_head_def)
next
  case (Cons c b)
  then show ?case by (auto simp: split_head_def)
qed

lemma split_head_prefix: "prefix (split_head sep s) s"
  unfolding split_head_def by (metis prefixI takeWhile_dropWhile_id)

lemma strip_protocol_http [simp]: "strip_protocol (''http://'' @ x) = x"
  by (simp add: strip_protocol_def)

lemma strip_protocol_https [simp]: "strip_protocol (''https://'' @ x) = x"
  by (simp add: strip_protocol_def)

lemma strip_www_www [simp]: "strip_www (''www.'' @ x) = x"
  by (simp add: strip_www_def)

lemma strip_www_none: "\<not> prefix ''www.'' x \<Longrightarrow> strip_www x = x"
  by (simp add: strip_www_def)

lemma prefix_before_padding:
  assumes "prefix l (x @ replicate n c)" and "c \<notin> set l"
  shows "prefix l x"
proof -
  from assms(1) consider "prefix l x" | us where "l = x @ us" "prefix us (replicate n c)"
    by (auto simp: prefix_append)
  then show ?thesis
  proof cases
    case 1
    then show ?thesis .
  next
    case 2
    then have "set us \<subseteq> {c}"
      by (metis set_mono_prefix set_replicate_conv_if empty_subsetI subset_trans subset_refl)
    with assms(2) 2(1) have "us = []" by (cases us) auto
    with 2(1) show ?thesis by simp
  qed
qed

lemma takeWhile_slashes:
  "takeWhile (\<lambda>x. x \<noteq> CHR ''/'') (t @ replicate n CHR ''/'') = takeWhile (\<lambda>x. x \<noteq> CHR ''/'') t"
proof (induction t)
  case Nil
  then show ?case by (cases n) simp_all
next
  case (Cons c t)
  then show ?case by simp
qed

lemma match_company_slashes_only: "match_company (replicate n CHR ''/'') = None"
  by (induction n) (simp_all add: company_path_def)

lemma prefix_of_long:
  assumes "prefix l (s @ y)" and "length l \<le> length s"
  shows "prefix l s"
proof -
  from assms(1) obtain z where "s @ y = l @ z" by (auto simp: prefix_def)
  then have "take (length l) (s @ y) = l" by simp
  with assms(2) have "take (length l) s = l" by simp
  then show ?thesis by (metis take_is_prefix)
qed

lemma match_head_slashes:
  "(prefix company_path (s @ replicate n CHR ''/'')
      \<and> takeWhile (\<lambda>x. x \<noteq> CHR ''/'') (drop (length company_path) (s @ replicate n CHR ''/'')) \<noteq> [])
   \<longleftrightarrow> (prefix company_path s
      \<and> takeWhile (\<lambda>x. x \<noteq> CHR ''/'') (drop (length company_path) s) \<noteq> [])"
proof (cases "length company_path \<le> length s")
  case True
  then have "prefix company_path (s @ replicate n CHR ''/'') \<longleftrightarrow> prefix company_path s"
    using prefix_of_long [of company_path s] by auto
  with True show ?thesis by (simp add: takeWhile_slashes)
next
  case False
  then have "\<not> prefix company_path s" by (auto dest: prefix_length_le)
  moreover from False
  have "drop (length company_path) (s @ replicate n CHR ''/'')
        = replicate (n - (length company_path - length s)) CHR ''/''"
    by simp
  then have "takeWhile (\<lambda>x. x \<noteq> CHR ''/'') (drop (length company_path) (s @ replicate n CHR ''/'')) = []"
    by (simp add: takeWhile_eq_Nil_iff)
  ultimately show ?thesis by simp
qed

lemma match_value_slashes:
  assumes "prefix company_path s"
  shows "takeWhile (\<lambda>x. x \<noteq> CHR ''/'') (drop (length company_path) (s @ replicate n CHR ''/''))
         = takeWhile (\<lambda>x. x \<noteq> CHR ''/'') (drop (length company_path) s)"
proof -
  from assms have "length company_path \<le> length s" by (rule prefix_length_le)
  then show ?thesis by (simp add: takeWhile_slashes)
qed

lemma match_company_append_slashes:
  "match_company (s @ replicate n CHR ''/'') = match_company s"
proof (induction s)
  case Nil
  then show ?case by (simp add: match_company_slashes_only)
next
  case (Cons c s)
  let ?H = "\<lambda>t. prefix company_path t
      \<and> takeWhile (\<lambda>x. x \<noteq> CHR ''/'') (drop (length company_path) t) \<noteq> []"
  let ?V = "\<lambda>t. takeWhile (\<lambda>x. x \<noteq> CHR ''/'') (drop (length company_path) t)"
  let ?r = "replicate n CHR ''/''"
  have step: "match_company ((c # s) @ ?r)
              = (if ?H ((c # s) @ ?r) then Some (?V ((c # s) @ ?r)) else match_company (s @ ?r))"
    by simp
  have here: "match_company (c # s) = (if ?H (c # s) then Some (?V (c # s)) else match_company s)"
    by simp
  show ?case
  proof (cases "?H (c # s)")
    case True
    then have H': "?H ((c # s) @ ?r)" using match_head_slashes [of "c # s" n] by blast
    have V': "?V ((c # s) @ ?r) = ?V (c # s)" using True match_value_slashes by blast
    show ?thesis unfolding step here if_P [OF H'] if_P [OF True] by (simp only: V')
  next
    case False
    then have H': "\<not> ?H ((c # s) @ ?r)" using match_head_slashes [of "c # s" n] by blast
    show ?thesis unfolding step here if_not_P [OF H'] if_not_P [OF False] by (rule Cons.IH)
  qed
qed

lemma match_includes: "match_company s = Some g \<Longrightarrow> str_includes company_path s"
  by (induction s) (auto split: if_splits)

lemma strip_trailing_slashes_append:
  "strip_trailing_slashes (s @ replicate n CHR ''/'') = strip_trailing_slashes s"
  by (simp add: strip_trailing_slashes_def dropWhile_append)


lemma normalizeUrl_unfold:
  "normalizeUrl (JStr u) =
     (if u = [] \<or> u = ''N/A'' then None
      else
        let normalized = strip_www (strip_protocol (toLowerCase
                           (trim (split_head (CHR ''#'') (split_head (CHR ''?'') u)))))
        in case match_company normalized of
             Some slug \<Rightarrow> Some (company_path @ slug)
           | None \<Rightarrow>
               (let stripped = strip_trailing_slashes normalized
                in if stripped = [] then None else Some stripped))"
proof -
  have "(if str_includes company_path n then match_company n else None) = match_company n" for n
    by (cases "match_company n") (auto dest: match_includes)
  then show ?thesis by (simp add: normalizeUrl.simps)
qed

lemma not_space_slash: "\<not> is_space CHR ''/''"
  by (simp add: is_space_def)

lemma normalizeUrl_variant:
  assumes p: "p = ''http://'' \<or> p = ''https://''" and w: "w = [] \<or> w = ''www.''"
    and clean: "\<forall>c\<in>set b. \<not> is_space c" and bare: "\<not> prefix ''www.'' (toLowerCase b)"
  shows "normalizeUrl (JStr (p @ w @ b @ replicate n CHR ''/''))
         = (let N = toLowerCase (split_head CHR ''#'' (split_head CHR ''?'' b))
            in case match_company N of
                 Some slug \<Rightarrow> Some (company_path @ slug)
               | None \<Rightarrow> (let stripped = strip_trailing_slashes N
                           in if stripped = [] then None else Some stripped))"
proof -
  let ?u = "p @ w @ b @ replicate n CHR ''/''"
  let ?b1 = "split_head CHR ''?'' b"
  let ?b2 = "split_head CHR ''#'' ?b1"
  let ?n1 = "if CHR ''?'' \<in> set b then 0 else n"
  let ?n2 = "if CHR ''#'' \<in> set ?b1 then 0 else ?n1"
  have pw: "CHR ''?'' \<notin> set (p @ w)" "CHR ''#'' \<notin> set (p @ w)" "\<forall>c\<in>set (p @ w). \<not> is_space c"
    using p w by (auto simp: is_space_def)
  have c1: "split_head CHR ''?'' ?u = (p @ w) @ ?b1 @ replicate ?n1 CHR ''/''"
    using split_head_clean [OF pw(1), of "b @ replicate n CHR ''/''"]
          split_head_slashes [of "CHR ''?''" b n]
    by simp
  have c2: "split_head CHR ''#'' ((p @ w) @ ?b1 @ replicate ?n1 CHR ''/'')
            = (p @ w) @ ?b2 @ replicate ?n2 CHR ''/''"
    using split_head_clean [OF pw(2), of "?b1 @ replicate ?n1 CHR ''/''"]
          split_head_slashes [of "CHR ''#''" ?b1 ?n1]
    by simp
  have pre: "prefix ?b2 b"
    using split_head_prefix [of "CHR ''#''" ?b1] split_head_prefix [of "CHR ''?''" b]
    by (rule prefix_order.trans)
  then have "set ?b2 \<subseteq> set b" by (rule set_mono_prefix)
  with clean pw(3) have "\<forall>c\<in>set ((p @ w) @ ?b2 @ replicate ?n2 CHR ''/''). \<not> is_space c"
    by (auto simp: not_space_slash)
  then have c3: "trim ((p @ w) @ ?b2 @ replicate ?n2 CHR ''/'')
                 = (p @ w) @ ?b2 @ replicate ?n2 CHR ''/''"
    by (rule trim_clean)
  have c4: "toLowerCase ((p @ w) @ ?b2 @ replicate ?n2 CHR ''/'')
            = p @ w @ toLowerCase ?b2 @ replicate ?n2 CHR ''/''"
    using p w toLowerCase_lits by auto
  have c5: "strip_protocol (p @ w @ toLowerCase ?b2 @ replicate ?n2 CHR ''/'')
            = w @ toLowerCase ?b2 @ replicate ?n2 CHR ''/''"
    using p by (elim disjE) (simp_all only: strip_protocol_http strip_protocol_https)
  have nowww: "\<not> prefix ''www.'' (toLowerCase ?b2 @ replicate ?n2 CHR ''/'')"
  proof
    assume "prefix ''www.'' (toLowerCase ?b2 @ replicate ?n2 CHR ''/'')"
    then have "prefix ''www.'' (toLowerCase ?b2)"
      by (rule prefix_before_padding) simp
    moreover from pre have "prefix (toLowerCase ?b2) (toLowerCase b)"
      unfolding toLowerCase_def by (rule map_mono_prefix)
    ultimately have "prefix ''www.'' (toLowerCase b)" by (rule prefix_order.trans)
    with bare show False ..
  qed
  have c6: "strip_www (w @ toLowerCase ?b2 @ replicate ?n2 CHR ''/'')
            = toLowerCase ?b2 @ replicate ?n2 CHR ''/''"
    using w nowww strip_www_none strip_www_www by (metis append_Nil)
  have N: "strip_www (strip_protocol (toLowerCase
             (trim (split_head (CHR ''#'') (split_head (CHR ''?'') ?u)))))
           = toLowerCase ?b2 @ replicate ?n2 CHR ''/''"
    unfolding c1 c2 c3 c4 c5 c6 ..
  have ne: "\<not> (?u = [] \<or> ?u = ''N/A'')" using p by auto
  show ?thesis
    unfolding normalizeUrl_unfold [of ?u] if_not_P [OF ne] N Let_def
      match_company_append_slashes strip_trailing_slashes_append ..
qed


lemma rtrim_append:
  assumes "a \<noteq> []" and "\<not> is_space (last a)"
  shows "rev (dropWhile is_space (rev (a @ r))) = a @ rev (dropWhile is_space (rev r))"
proof (cases "\<forall>c\<in>set r. is_space c")
  case True
  from assms have "dropWhile is_space (rev a) = rev a"
    by (cases "rev a") (auto simp: last_rev [symmetric] simp del: last_rev)
  with True show ?thesis by (simp add: dropWhile_append)
next
  case False
  then show ?thesis by (auto simp: dropWhile_append)
qed

lemma cut_subpath:
  assumes "rest = [] \<or> hd rest \<in> {CHR ''/'', CHR ''?'', CHR ''#''}"
  shows "split_head CHR ''#'' (split_head CHR ''?'' rest) = []
         \<or> hd (split_head CHR ''#'' (split_head CHR ''?'' rest)) = CHR ''/''"
  using assms by (cases rest) (auto simp: split_head_def)

lemma rtrim_subpath:
  assumes "r = [] \<or> hd r = CHR ''/''"
  shows "rev (dropWhile is_space (rev r)) = []
         \<or> hd (rev (dropWhile is_space (rev r))) = CHR ''/''"
proof (cases r)
  case Nil
  then show ?thesis by simp
next
  case (Cons c cs)
  with assms have c: "c = CHR ''/''" by simp
  have "rev (dropWhile is_space (rev ([c] @ cs))) = [c] @ rev (dropWhile is_space (rev cs))"
    by (rule rtrim_append) (simp_all add: c not_space_slash)
  with Cons c show ?thesis by simp
qed

lemma toLowerCase_subpath:
  assumes "r = [] \<or> hd r = CHR ''/''"
  shows "toLowerCase r = [] \<or> hd (toLowerCase r) = CHR ''/''"
  using assms by (cases r) (auto simp: toLowerCase_def lower_slash)

lemma takeWhile_slug:
  assumes "CHR ''/'' \<notin> set g" and "r = [] \<or> hd r = CHR ''/''"
  shows "takeWhile (\<lambda>x. x \<noteq> CHR ''/'') (g @ r) = g"
  using assms by (cases r) (auto simp: takeWhile_append)

lemma match_company_at_start:
  assumes "g \<noteq> []" and "CHR ''/'' \<notin> set g" and "r = [] \<or> hd r = CHR ''/''"
  shows "match_company (company_path @ g @ r) = Some g"
proof -
  have "match_company (company_path @ x)
        = (if takeWhile (\<lambda>x. x \<noteq> CHR ''/'') x \<noteq> [] then Some (takeWhile (\<lambda>x. x \<noteq> CHR ''/'') x)
           else match_company (tl (company_path @ x)))" for x
    by (simp add: company_path_def)
  with assms takeWhile_slug [OF assms(2,3)] show ?thesis by simp
qed

lemma lower_char_slash': "CHR ''/'' = lower_char c \<longleftrightarrow> c = CHR ''/''"
  using lower_char_slash [of c] by auto

lemma normalizeUrl_subpath:
  assumes p: "p = ''http://'' \<or> p = ''https://''" and w: "w = [] \<or> w = ''www.''"
    and g: "g \<noteq> []" "\<forall>c\<in>set g. \<not> is_space c"
      "CHR ''/'' \<notin> set g" "CHR ''?'' \<notin> set g" "CHR ''#'' \<notin> set g"
    and rest: "rest = [] \<or> hd rest \<in> {CHR ''/'', CHR ''?'', CHR ''#''}"
  shows "normalizeUrl (JStr (p @ w @ company_path @ g @ rest))
         = Some (company_path @ toLowerCase g)"
proof -
  let ?a = "p @ w @ company_path @ g"
  let ?u = "?a @ rest"
  let ?r2 = "split_head CHR ''#'' (split_head CHR ''?'' rest)"
  let ?r3 = "rev (dropWhile is_space (rev ?r2))"
  have a: "CHR ''?'' \<notin> set ?a" "CHR ''#'' \<notin> set ?a"
    using p w g(4,5) by (auto simp: company_path_def)
  have c1: "split_head CHR ''#'' (split_head CHR ''?'' ?u) = ?a @ ?r2"
    using split_head_clean [OF a(1), of rest] split_head_clean [OF a(2), of "split_head CHR ''?'' rest"]
    by simp
  have r2: "?r2 = [] \<or> hd ?r2 = CHR ''/''" using rest by (rule cut_subpath)
  then have r3: "?r3 = [] \<or> hd ?r3 = CHR ''/''" by (rule rtrim_subpath)
  have lead: "dropWhile is_space (?a @ ?r2) = ?a @ ?r2"
    using p by (auto simp: is_space_def)
  have "?a \<noteq> []" "\<not> is_space (last ?a)" using g(1,2) by auto
  then have c2: "trim (?a @ ?r2) = ?a @ ?r3"
    unfolding trim_def lead by (rule rtrim_append)
  have c3: "toLowerCase (?a @ ?r3) = p @ w @ company_path @ toLowerCase g @ toLowerCase ?r3"
    using p w toLowerCase_lits by auto
  have c4: "strip_protocol (p @ w @ company_path @ toLowerCase g @ toLowerCase ?r3)
            = w @ company_path @ toLowerCase g @ toLowerCase ?r3"
    using p by (elim disjE) (simp_all only: strip_protocol_http strip_protocol_https)
  have "\<not> prefix ''www.'' (company_path @ x)" for x
    by (simp add: company_path_def)
  then have c5: "strip_www (w @ company_path @ toLowerCase g @ toLowerCase ?r3)
            = company_path @ toLowerCase g @ toLowerCase ?r3"
    using w strip_www_none strip_www_www by (metis append_Nil)
  have N: "strip_www (strip_protocol (toLowerCase
             (trim (split_head (CHR ''#'') (split_head (CHR ''?'') ?u)))))
           = company_path @ toLowerCase g @ toLowerCase ?r3"
    unfolding c1 c2 c3 c4 c5 ..
  have lg: "toLowerCase g \<noteq> []" "CHR ''/'' \<notin> set (toLowerCase g)"
    using g(1,3) by (auto simp: toLowerCase_def lower_char_slash' lower_slash)
  have m: "match_company (company_path @ toLowerCase g @ toLowerCase ?r3) = Some (toLowerCase g)"
    using lg toLowerCase_subpath [OF r3] by (rule match_company_at_start)
  have ne: "\<not> (?u = [] \<or> ?u = ''N/A'')" using p by auto
  have "normalizeUrl (JStr ?u) = Some (company_path @ toLowerCase g)"
    unfolding normalizeUrl_unfold [of ?u] if_not_P [OF ne] N Let_def m by simp
  then show ?thesis by simp
qed

lemma prefix_before_tail:
  assumes "prefix l (x @ t)" and "t = [] \<or> hd t \<notin> set l"
  shows "prefix l x"
proof -
  from assms(1) consider "prefix l x" | us where "l = x @ us" "prefix us t"
    by (auto simp: prefix_append)
  then show ?thesis
  proof cases
    case 1
    then show ?thesis .
  next
    case 2
    have "us = []"
    proof (rule ccontr)
      assume ne: "us \<noteq> []"
      with 2(2) have "t \<noteq> []" and "hd us = hd t"
        by (auto simp: prefix_def)
      moreover from ne 2(1) have "hd us \<in> set l" by simp
      ultimately show False using assms(2) by simp
    qed
    with 2(1) show ?thesis by simp
  qed
qed

lemma company_path_host:
  "takeWhile (\<lambda>x. x \<noteq> CHR ''/'') (company_path @ z) = ''linkedin.com''"
  by (simp add: company_path_def)

lemma no_match_inside_host:
  assumes "x \<noteq> []" and "CHR ''/'' \<notin> set x"
  shows "\<not> prefix company_path (x @ company_path @ z)"
proof
  assume "prefix company_path (x @ company_path @ z)"
  then obtain y where y: "x @ company_path @ z = company_path @ y"
    by (auto simp: prefix_def)
  have "takeWhile (\<lambda>c. c \<noteq> CHR ''/'') (x @ company_path @ z)
        = x @ takeWhile (\<lambda>c. c \<noteq> CHR ''/'') (company_path @ z)"
    using assms(2) by (intro takeWhile_append2) auto
  then have "takeWhile (\<lambda>c. c \<noteq> CHR ''/'') (x @ company_path @ z) = x @ ''linkedin.com''"
    by (simp only: company_path_host)
  moreover have "takeWhile (\<lambda>c. c \<noteq> CHR ''/'') (company_path @ y) = ''linkedin.com''"
    by (rule company_path_host)
  ultimately have "x @ ''linkedin.com'' = ''linkedin.com''"
    using y by simp
  then have "length (x @ ''linkedin.com'') = length ''linkedin.com''" by simp
  with assms(1) show False by simp
qed

lemma match_company_after_host:
  assumes "CHR ''/'' \<notin> set x" and "g \<noteq> []" and "CHR ''/'' \<notin> set g"
    and "r = [] \<or> hd r = CHR ''/''"
  shows "match_company (x @ company_path @ g @ r) = Some g"
  using assms(1)
proof (induction x)
  case Nil
  show ?case using match_company_at_start [OF assms(2,3,4)] by simp
next
  case (Cons c x)
  have "\<not> prefix company_path ((c # x) @ company_path @ g @ r)"
    using Cons.prems by (intro no_match_inside_host) simp_all
  then have "match_company ((c # x) @ company_path @ g @ r)
             = match_company (x @ company_path @ g @ r)"
    by simp
  with Cons show ?case by simp
qed

lemma normalizeUrl_collapse:
  assumes p: "p = ''http://'' \<or> p = ''https://''" and w: "w = [] \<or> w = ''www.''"
    and h: "\<forall>c\<in>set h. \<not> is_space c" "CHR ''/'' \<notin> set h" "CHR ''?'' \<notin> set h"
      "CHR ''#'' \<notin> set h" "\<not> prefix ''www.'' (toLowerCase h)"
    and g: "g \<noteq> []" "\<forall>c\<in>set g. \<not> is_space c"
      "CHR ''/'' \<notin> set g" "CHR ''?'' \<notin> set g" "CHR ''#'' \<notin> set g"
    and rest: "rest = [] \<or> hd rest \<in> {CHR ''/'', CHR ''?'', CHR ''#''}"
  shows "normalizeUrl (JStr (p @ w @ h @ company_path @ g @ rest))
         = Some (company_path @ toLowerCase g)"
proof -
  let ?a = "p @ w @ h @ company_path @ g"
  let ?u = "?a @ rest"
  let ?r2 = "split_head CHR ''#'' (split_head CHR ''?'' rest)"
  let ?r3 = "rev (dropWhile is_space (rev ?r2))"
  have a: "CHR ''?'' \<notin> set ?a" "CHR ''#'' \<notin> set ?a"
    using p w h(3,4) g(4,5) by (auto simp: company_path_def)
  have c1: "split_head CHR ''#'' (split_head CHR ''?'' ?u) = ?a @ ?r2"
    using split_head_clean [OF a(1), of rest] split_head_clean [OF a(2), of "split_head CHR ''?'' rest"]
    by simp
  have r2: "?r2 = [] \<or> hd ?r2 = CHR ''/''" using rest by (rule cut_subpath)
  then have r3: "?r3 = [] \<or> hd ?r3 = CHR ''/''" by (rule rtrim_subpath)
  have lead: "dropWhile is_space (?a @ ?r2) = ?a @ ?r2"
    using p by (auto simp: is_space_def)
  have "?a \<noteq> []" "\<not> is_space (last ?a)" using g(1,2) by auto
  then have c2: "trim (?a @ ?r2) = ?a @ ?r3"
    unfolding trim_def lead by (rule rtrim_append)
  have c3: "toLowerCase (?a @ ?r3)
            = p @ w @ toLowerCase h @ company_path @ toLowerCase g @ toLowerCase ?r3"
    using p w toLowerCase_lits by auto
  have c4: "strip_protocol (p @ w @ toLowerCase h @ company_path @ toLowerCase g @ toLowerCase ?r3)
            = w @ toLowerCase h @ company_path @ toLowerCase g @ toLowerCase ?r3"
    using p by (elim disjE) (simp_all only: strip_protocol_http strip_protocol_https)
  have "\<not> prefix ''www.'' (toLowerCase h @ company_path @ x)" for x
  proof
    assume "prefix ''www.'' (toLowerCase h @ company_path @ x)"
    then have "prefix ''www.'' (toLowerCase h)"
      by (rule prefix_before_tail) (simp add: company_path_def)
    with h(5) show False ..
  qed
  then have c5: "strip_www (w @ toLowerCase h @ company_path @ toLowerCase g @ toLowerCase ?r3)
            = toLowerCase h @ company_path @ toLowerCase g @ toLowerCase ?r3"
    using w strip_www_none strip_www_www by (metis append_Nil)
  have N: "strip_www (strip_protocol (toLowerCase
             (trim (split_head (CHR ''#'') (split_head (CHR ''?'') ?u)))))
           = toLowerCase h @ company_path @ toLowerCase g @ toLowerCase ?r3"
    unfolding c1 c2 c3 c4 c5 ..
  have lg: "toLowerCase g \<noteq> []" "CHR ''/'' \<notin> set (toLowerCase g)"
    using g(1,3) by (auto simp: toLowerCase_def lower_char_slash' lower_slash)
  have lh: "CHR ''/'' \<notin> set (toLowerCase h)"
    using h(2) by (auto simp: toLowerCase_def lower_char_slash' lower_slash)
  have m: "match_company (toLowerCase h @ company_path @ toLowerCase g @ toLowerCase ?r3)
           = Some (toLowerCase g)"
    using lh lg toLowerCase_subpath [OF r3] by (rule match_company_after_host)
  have ne: "\<not> (?u = [] \<or> ?u = ''N/A'')" using p by auto
  have "normalizeUrl (JStr ?u) = Some (company_path @ toLowerCase g)"
    unfolding normalizeUrl_unfold [of ?u] if_not_P [OF ne] N Let_def m by simp
  then show ?thesis by simp
qed

lemma lower_marks: "lower_char CHR ''?'' = CHR ''?''" "lower_char CHR ''#'' = CHR ''#''"
  by code_simp+

lemma cut_tail:
  assumes "CHR ''?'' \<notin> set a" and "CHR ''#'' \<notin> set a"
    and "q = [] \<or> hd q \<in> {CHR ''?'', CHR ''#''}"
  shows "split_head CHR ''#'' (split_head CHR ''?'' (a @ q)) = a"
proof -
  have "split_head CHR ''#'' (split_head CHR ''?'' q) = []"
    using assms(3) by (cases q) (auto simp: split_head_def)
  then show ?thesis
    using split_head_clean [OF assms(1), of q]
      split_head_clean [OF assms(2), of "split_head CHR ''?'' q"]
    by simp
qed

lemma normalizeUrl_other:
  assumes p: "p = ''http://'' \<or> p = ''https://''" and w: "w = [] \<or> w = ''www.''"
    and b: "b \<noteq> []" "\<forall>c\<in>set b. \<not> is_space c" "CHR ''?'' \<notin> set b" "CHR ''#'' \<notin> set b"
      "last b \<noteq> CHR ''/''" "\<not> prefix ''www.'' (toLowerCase b)"
    and other: "\<not> str_includes company_path (toLowerCase b)"
    and q: "q = [] \<or> hd q \<in> {CHR ''?'', CHR ''#''}" "\<forall>c\<in>set q. \<not> is_space c"
  shows "normalizeUrl (JStr (p @ w @ b @ replicate n CHR ''/'' @ q)) = Some (toLowerCase b)"
proof -
  let ?b = "b @ replicate n CHR ''/'' @ q"
  have clean: "\<forall>c\<in>set ?b. \<not> is_space c"
    using b(2) q(2) by (auto simp: not_space_slash)
  have tl: "toLowerCase (replicate n CHR ''/'' @ q) = []
            \<or> hd (toLowerCase (replicate n CHR ''/'' @ q)) \<notin> set ''www.''"
  proof (cases n)
    case 0
    with q(1) show ?thesis
      by (cases q) (auto simp: toLowerCase_def lower_marks)
  next
    case (Suc m)
    then show ?thesis by (simp add: toLowerCase_def lower_slash)
  qed
  have bare: "\<not> prefix ''www.'' (toLowerCase ?b)"
  proof
    assume "prefix ''www.'' (toLowerCase ?b)"
    then have "prefix ''www.'' (toLowerCase b @ toLowerCase (replicate n CHR ''/'' @ q))"
      by (simp only: toLowerCase_append)
    then have "prefix ''www.'' (toLowerCase b)"
      using tl by (rule prefix_before_tail)
    with b(6) show False ..
  qed
  have "CHR ''?'' \<notin> set (b @ replicate n CHR ''/'')" "CHR ''#'' \<notin> set (b @ replicate n CHR ''/'')"
    using b(3,4) by auto
  then have "split_head CHR ''#'' (split_head CHR ''?'' ((b @ replicate n CHR ''/'') @ q))
             = b @ replicate n CHR ''/''"
    using q(1) by (rule cut_tail)
  then have s: "split_head CHR ''#'' (split_head CHR ''?'' ?b) = b @ replicate n CHR ''/''"
    by simp
  have m: "match_company (toLowerCase b) = None"
    using other match_includes [of "toLowerCase b"] by (cases "match_company (toLowerCase b)") auto
  have "last (toLowerCase b) \<noteq> CHR ''/''"
    using b(1,5) by (simp add: toLowerCase_def last_map lower_char_slash)
  moreover have ne: "toLowerCase b \<noteq> []" using b(1) by (simp add: toLowerCase_def)
  ultimately have t: "strip_trailing_slashes (toLowerCase b) = toLowerCase b"
    by (cases "rev (toLowerCase b)")
       (auto simp: strip_trailing_slashes_def last_rev [symmetric] simp del: last_rev)
  have "normalizeUrl (JStr (p @ w @ ?b @ replicate 0 CHR ''/'')) = Some (toLowerCase b)"
    unfolding normalizeUrl_variant [OF p w clean bare] s Let_def toLowerCase_append
      toLowerCase_slashes match_company_append_slashes strip_trailing_slashes_append m t
    using ne by simp
  then show ?thesis by simp
qed

text \<open>
  C6, as the claim states it, fails. The URL \<^verbatim>\<open>https://notlinkedin.com/company/X/about\<close> is
  not on the target domain, and its host and sub-path are lost, not only its trailing
  slashes: the test is whether the text "linkedin.com/company/" occurs anywhere. The URLs
  \<^verbatim>\<open>https://www.www.a.com\<close> and \<^verbatim>\<open>https://www.a.com\<close> differ only by a leading "www."
  and normalize differently: one "www." is removed, once.
\<close>

theorem normalizeUrl_claimed_invariance_counterexample:
  "normalizeUrl (JStr ''https://notlinkedin.com/company/X/about'')
     = Some ''linkedin.com/company/x''
   \<and> normalizeUrl (JStr ''https://www.www.a.com'') = Some ''www.a.com''
   \<and> normalizeUrl (JStr ''https://www.a.com'') = Some ''a.com''"
  by code_simp

text \<open>
  C6, amended. URL strings are strings without white space. Two of them that differ only
  in the protocol (http or https), in one leading "www." before a rest that does not
  itself begin with "www.", and in the number of trailing slashes normalize to the same
  output. A URL in which \<open>linkedin.com/company/<slug>\<close> comes after the protocol, an
  optional "www." and a host prefix \<open>h\<close> without a slash (empty on the target domain,
  "uk." or "not" elsewhere) normalizes to \<open>linkedin.com/company/<slug>\<close> with the slug in
  lower case, whatever sub-path, query or fragment follows the slug. A URL whose rest \<open>s\<close>
  after protocol and "www." does not contain the text "linkedin.com/company/" in any
  letter case keeps its sub-path: the output is \<open>s\<close> in lower case, without the trailing
  slashes and the query or fragment that follow it.
\<close>

theorem normalizeUrl_canonical_forms:
  "((p = ''http://'' \<or> p = ''https://'') \<and> (p' = ''http://'' \<or> p' = ''https://'')
      \<and> (w = [] \<or> w = ''www.'') \<and> (w' = [] \<or> w' = ''www.'')
      \<and> (\<forall>c\<in>set b. \<not> is_space c) \<and> \<not> prefix ''www.'' (toLowerCase b)
    \<longrightarrow> normalizeUrl (JStr (p @ w @ b @ replicate n CHR ''/''))
        = normalizeUrl (JStr (p' @ w' @ b @ replicate n' CHR ''/'')))
   \<and> ((p = ''http://'' \<or> p = ''https://'') \<and> (w = [] \<or> w = ''www.'')
      \<and> (\<forall>c\<in>set h. \<not> is_space c)
      \<and> CHR ''/'' \<notin> set h \<and> CHR ''?'' \<notin> set h \<and> CHR ''#'' \<notin> set h
      \<and> \<not> prefix ''www.'' (toLowerCase h)
      \<and> g \<noteq> [] \<and> (\<forall>c\<in>set g. \<not> is_space c)
      \<and> CHR ''/'' \<notin> set g \<and> CHR ''?'' \<notin> set g \<and> CHR ''#'' \<notin> set g
      \<and> (rest = [] \<or> hd rest \<in> {CHR ''/'', CHR ''?'', CHR ''#''})
    \<longrightarrow> normalizeUrl (JStr (p @ w @ h @ company_path @ g @ rest))
        = Some (company_path @ toLowerCase g))
   \<and> ((p = ''http://'' \<or> p = ''https://'') \<and> (w = [] \<or> w = ''www.'')
      \<and> s \<noteq> [] \<and> (\<forall>c\<in>set s. \<not> is_space c)
      \<and> CHR ''?'' \<notin> set s \<and> CHR ''#'' \<notin> set s \<and> last s \<noteq> CHR ''/''
      \<and> \<not> prefix ''www.'' (toLowerCase s)
      \<and> \<not> str_includes company_path (toLowerCase s)
      \<and> (q = [] \<or> hd q \<in> {CHR ''?'', CHR ''#''}) \<and> (\<forall>c\<in>set q. \<not> is_space c)
    \<longrightarrow> normalizeUrl (JStr (p @ w @ s @ replicate m CHR ''/'' @ q))
        = Some (toLowerCase s))"
proof (intro conjI impI)
  assume "(p = ''http://'' \<or> p = ''https://'') \<and> (p' = ''http://'' \<or> p' = ''https://'')
      \<and> (w = [] \<or> w = ''www.'') \<and> (w' = [] \<or> w' = ''www.'')
      \<and> (\<forall>c\<in>set b. \<not> is_space c) \<and> \<not> prefix ''www.'' (toLowerCase b)"
  then show "normalizeUrl (JStr (p @ w @ b @ replicate n CHR ''/''))
        = normalizeUrl (JStr (p' @ w' @ b @ replicate n' CHR ''/''))"
    using normalizeUrl_variant [of p w b n] normalizeUrl_variant [of p' w' b n'] by presburger
next
  assume "(p = ''http://'' \<or> p = ''https://'') \<and> (w = [] \<or> w = ''www.'')
      \<and> (\<forall>c\<in>set h. \<not> is_space c)
      \<and> CHR ''/'' \<notin> set h \<and> CHR ''?'' \<notin> set h \<and> CHR ''#'' \<notin> set h
      \<and> \<not> prefix ''www.'' (toLowerCase h)
      \<and> g \<noteq> [] \<and> (\<forall>c\<in>set g. \<not> is_space c)
      \<and> CHR ''/'' \<notin> set g \<and> CHR ''?'' \<notin> set g \<and> CHR ''#'' \<notin> set g
      \<and> (rest = [] \<or> hd rest \<in> {CHR ''/'', CHR ''?'', CHR ''#''})"
  then show "normalizeUrl (JStr (p @ w @ h @ company_path @ g @ rest))
        = Some (company_path @ toLowerCase g)"
    using normalizeUrl_collapse [of p w h g rest] by blast
next
  assume "(p = ''http://'' \<or> p = ''https://'') \<and> (w = [] \<or> w = ''www.'')
      \<and> s \<noteq> [] \<and> (\<forall>c\<in>set s. \<not> is_space c)
      \<and> CHR ''?'' \<notin> set s \<and> CHR ''#'' \<notin> set s \<and> last s \<noteq> CHR ''/''
      \<and> \<not> prefix ''www.'' (toLowerCase s)
      \<and> \<not> str_includes company_path (toLowerCase s)
      \<and> (q = [] \<or> hd q \<in> {CHR ''?'', CHR ''#''}) \<and> (\<forall>c\<in>set q. \<not> is_space c)"
  then show "normalizeUrl (JStr (p @ w @ s @ replicate m CHR ''/'' @ q)) = Some (toLowerCase s)"
    using normalizeUrl_other [of p w s q m] by blast
qed

theorem normalizeUrl_canonical_forms_witness:
  "normalizeUrl (JStr ''http://www.Example.com/a/b//'')
     = normalizeUrl (JStr ''https://Example.com/a/b'')
   \<and> normalizeUrl (JStr ''https://www.linkedin.com/company/Acme-Corp/about/'')
     = Some ''linkedin.com/company/acme-corp''
   \<and> normalizeUrl (JStr ''http://uk.linkedin.com/company/Acme-Corp?trk=1'')
     = Some ''linkedin.com/company/acme-corp''
   \<and> normalizeUrl (JStr ''https://www.Example.com/a/about//?x=1'')
     = Some ''example.com/a/about''"
proof -
  have clean: "\<forall>c\<in>set ''Example.com/a/b''. \<not> is_space c"
    "\<forall>c\<in>set ''Acme-Corp''. \<not> is_space c" "\<forall>c\<in>set ''uk.''. \<not> is_space c"
    "\<forall>c\<in>set ''Example.com/a/about''. \<not> is_space c" "\<forall>c\<in>set ''?x=1''. \<not> is_space c"
    "\<forall>c\<in>set ''?trk=1''. \<not> is_space c"
    by (simp_all add: is_space_def)
  have bare: "\<not> prefix ''www.'' (toLowerCase ''Example.com/a/b'')"
    "\<not> prefix ''www.'' (toLowerCase [])" "\<not> prefix ''www.'' (toLowerCase ''uk.'')"
    "\<not> prefix ''www.'' (toLowerCase ''Example.com/a/about'')"
    by code_simp+
  have other: "\<not> str_includes company_path (toLowerCase ''Example.com/a/about'')"
    by code_simp
  have low: "company_path @ toLowerCase ''Acme-Corp'' = ''linkedin.com/company/acme-corp''"
    "toLowerCase ''Example.com/a/about'' = ''example.com/a/about''"
    by code_simp+
  from clean bare
    normalizeUrl_canonical_forms
      [where p = "''http://''" and p' = "''https://''" and w = "''www.''" and w' = "[]"
         and b = "''Example.com/a/b''" and n = 2 and n' = 0]
  have v1: "normalizeUrl (JStr (''http://'' @ ''www.'' @ ''Example.com/a/b'' @ replicate 2 CHR ''/''))
          = normalizeUrl (JStr (''https://'' @ [] @ ''Example.com/a/b'' @ replicate 0 CHR ''/''))"
    by simp
  from clean bare
    normalizeUrl_canonical_forms
      [where p = "''https://''" and w = "''www.''" and h = "[]" and g = "''Acme-Corp''"
         and rest = "''/about/''"]
  have v2: "normalizeUrl (JStr (''https://'' @ ''www.'' @ [] @ company_path @ ''Acme-Corp'' @ ''/about/''))
          = Some (company_path @ toLowerCase ''Acme-Corp'')"
    by simp
  from clean bare
    normalizeUrl_canonical_forms
      [where p = "''http://''" and w = "[]" and h = "''uk.''" and g = "''Acme-Corp''"
         and rest = "''?trk=1''"]
  have v3: "normalizeUrl (JStr (''http://'' @ [] @ ''uk.'' @ company_path @ ''Acme-Corp'' @ ''?trk=1''))
          = Some (company_path @ toLowerCase ''Acme-Corp'')"
    by simp
  from clean bare other
    normalizeUrl_canonical_forms
      [where p = "''https://''" and w = "''www.''" and s = "''Example.com/a/about''"
         and m = 2 and q = "''?x=1''"]
  have v4: "normalizeUrl (JStr (''https://'' @ ''www.'' @ ''Example.com/a/about''
              @ replicate 2 CHR ''/'' @ ''?x=1''))
          = Some (toLowerCase ''Example.com/a/about'')"
    by simp
  from v1 v2 v3 v4 show ?thesis
    unfolding low by (simp add: company_path_def numeral_2_eq_2)
qed

section \<open>One item of the queue\<close>

lemma removeAll_fresh:
  "\<forall>t\<in>set ts. t \<le> n \<Longrightarrow> removeAll (Suc n) ts = ts"
  by (intro removeAll_id) auto

lemma recordCompany_keeps:
  "recordCompany d w = Inr w3 \<Longrightarrow>
     openTabs w3 = openTabs w \<and> activeTabId w3 = activeTabId w \<and> errors w3 = errors w
     \<and> isRunning w3 = isRunning w \<and> isPaused w3 = isPaused w \<and> created w3 = created w
     \<and> tabCounter w3 = tabCounter w \<and> processedCompanies w3 = processedCompanies w + 1"
  by (auto simp: recordCompany_def Let_def split: prod.splits sum.splits if_splits)

text \<open>
  C8. An item of the queue that the final check does not skip, taken up while the run is
  running and not paused, with no detail tab active and tab ids handed out in increasing
  order. Whatever happens to the visit, no exception leaves \<open>processCompany\<close>, no
  detail tab is active afterwards and the open tabs are those that were open before, so
  the tab of the item, when one was created, is closed after a failure as after a success;
  the run is still running and not paused, and the loop goes on with the next index and
  the rest of the queue. When creating the tab, loading it or extracting from it fails,
  exactly one entry is appended to the error log, and neither the count of processed
  companies nor the store changes.
\<close>

theorem item_failure_isolated:
  assumes run: "isRunning w \<and> \<not> isPaused w"
    and idle: "activeTabId w = None"
    and fresh: "\<forall>t\<in>set (openTabs w). t \<le> tabCounter w"
    and new: "isDuplicateCompany (Some (candidate (JStr u) (JStr [])))
                (getCompanies (store w)) = Inr False"
    and p: "processCompany env (JStr u) (w\<lparr>currentCompanyIndex := i\<rparr>) = (w', r)"
  shows "r = None
    \<and> (itemOutcome env (currentPage w) i = CreateFails e
         \<or> itemOutcome env (currentPage w) i = LoadFails e
         \<or> itemOutcome env (currentPage w) i = ExtractFails
            \<and> e = Error ''Failed to extract company data''
       \<longrightarrow> errors w' = errors w @ [CompanyError (JStr u) e]
           \<and> processedCompanies w' = processedCompanies w \<and> store w' = store w)
    \<and> ((\<forall>e. itemOutcome env (currentPage w) i \<noteq> CreateFails e)
       \<longrightarrow> created w' = created w @ [aboutUrl u])
    \<and> activeTabId w' = None \<and> openTabs w' = openTabs w
    \<and> isRunning w' \<and> \<not> isPaused w'
    \<and> queueFrom env i (JStr u # rest) w = queueFrom env (Suc i) rest (userEvents env i w')"
proof -
  let ?w = "w\<lparr>currentCompanyIndex := i,
               ui := ui w @ [StatusUpdate (ScrapingCompany (processedCompanies w + 1))]\<rparr>"
  have rm: "removeAll (Suc (tabCounter w)) (openTabs w) = openTabs w"
    using fresh by (rule removeAll_fresh)
  from p new have r: "r = None" and w': "w' = visitCompany env (JStr u) ?w"
    by (auto simp: processCompany_def)
  have q: "queueFrom env i (JStr u # rest) w = queueFrom env (Suc i) rest (userEvents env i w')"
    using run p r by simp
  have rest: "(itemOutcome env (currentPage w) i = CreateFails e
         \<or> itemOutcome env (currentPage w) i = LoadFails e
         \<or> itemOutcome env (currentPage w) i = ExtractFails
            \<and> e = Error ''Failed to extract company data''
       \<longrightarrow> errors w' = errors w @ [CompanyError (JStr u) e]
           \<and> processedCompanies w' = processedCompanies w \<and> store w' = store w)
    \<and> ((\<forall>e. itemOutcome env (currentPage w) i \<noteq> CreateFails e)
       \<longrightarrow> created w' = created w @ [aboutUrl u])
    \<and> activeTabId w' = None \<and> openTabs w' = openTabs w
    \<and> isRunning w' \<and> \<not> isPaused w'"
  proof (cases "itemOutcome env (currentPage w) i")
    case (CreateFails x)
    then show ?thesis
      using run idle by (simp add: w' visitCompany_def failCompany_def closeActiveTab_def)
  next
    case (LoadFails x)
    then show ?thesis
      using run rm
      by (simp add: w' visitCompany_def failCompany_def closeActiveTab_def openTab_def)
  next
    case ExtractFails
    then show ?thesis
      using run rm
      by (simp add: w' visitCompany_def failCompany_def closeActiveTab_def openTab_def)
  next
    case (Extracted d)
    show ?thesis
    proof (cases "recordCompany d (openTab (aboutUrl u) ?w)")
      case (Inl x)
      then show ?thesis
        using run rm Extracted
        by (simp add: w' visitCompany_def failCompany_def closeActiveTab_def openTab_def)
    next
      case (Inr w3)
      from recordCompany_keeps [OF Inr] show ?thesis
        using run rm Extracted Inr
        by (simp add: w' visitCompany_def failCompany_def closeActiveTab_def openTab_def)
    qed
  next
    case (CloseFails d x)
    show ?thesis
    proof (cases "recordCompany d (openTab (aboutUrl u) ?w)")
      case (Inl x)
      then show ?thesis
        using run rm CloseFails
        by (simp add: w' visitCompany_def failCompany_def closeActiveTab_def openTab_def)
    next
      case (Inr w3)
      from recordCompany_keeps [OF Inr] show ?thesis
        using run rm CloseFails Inr
        by (simp add: w' visitCompany_def failCompany_def closeActiveTab_def openTab_def)
    qed
  qed
  from r q rest show ?thesis by blast
qed

theorem item_failure_isolated_witness:
  "isRunning (running None) \<and> \<not> isPaused (running None)
   \<and> itemOutcome stalling (currentPage (running None)) 0 = LoadFails (Error ''Tab load timeout'')
   \<and> errors (fst (processCompany stalling (JStr ''https://www.linkedin.com/company/bolt/'')
                   ((running None)\<lparr>currentCompanyIndex := 0\<rparr>)))
       = [CompanyError (JStr ''https://www.linkedin.com/company/bolt/'')
            (Error ''Tab load timeout'')]
   \<and> created (fst (processCompany stalling (JStr ''https://www.linkedin.com/company/bolt/'')
                   ((running None)\<lparr>currentCompanyIndex := 0\<rparr>)))
       = [''https://www.linkedin.com/company/bolt/about/'']
   \<and> openTabs (fst (processCompany stalling (JStr ''https://www.linkedin.com/company/bolt/'')
                   ((running None)\<lparr>currentCompanyIndex := 0\<rparr>))) = []
   \<and> queueFrom stalling 0
         [JStr ''https://www.linkedin.com/company/bolt/'',
          JStr ''https://www.linkedin.com/company/crux/''] (running None)
       = queueFrom stalling 1 [JStr ''https://www.linkedin.com/company/crux/'']
           (fst (processCompany stalling (JStr ''https://www.linkedin.com/company/bolt/'')
                   ((running None)\<lparr>currentCompanyIndex := 0\<rparr>)))"
proof -
  let ?u = "''https://www.linkedin.com/company/bolt/''"
  let ?w = "running None"
  let ?p = "processCompany stalling (JStr ?u) (?w\<lparr>currentCompanyIndex := 0\<rparr>)"
  have run: "isRunning ?w \<and> \<not> isPaused ?w"
    by (simp add: running_def new_ScraperCoordinator_def)
  have idle: "activeTabId ?w = None"
    by (simp add: running_def new_ScraperCoordinator_def)
  have fresh: "\<forall>t\<in>set (openTabs ?w). t \<le> tabCounter ?w"
    by (simp add: running_def new_ScraperCoordinator_def)
  have new: "isDuplicateCompany (Some (candidate (JStr ?u) (JStr [])))
               (getCompanies (store ?w)) = Inr False"
    by code_simp
  have out: "itemOutcome stalling (currentPage ?w) 0 = LoadFails (Error ''Tab load timeout'')"
    by (simp add: stalling_def)
  have about: "aboutUrl ?u = ''https://www.linkedin.com/company/bolt/about/''"
    by code_simp
  have start: "created ?w = [] \<and> errors ?w = [] \<and> openTabs ?w = []"
    by (simp add: running_def new_ScraperCoordinator_def)
  have ev: "userEvents stalling 0 (fst ?p) = fst ?p"
    by (simp add: userEvents_def stalling_def calm_def)
  from item_failure_isolated [where w = ?w and env = stalling and u = ?u and i = 0
      and w' = "fst ?p" and r = "snd ?p" and e = "Error ''Tab load timeout''"
      and rest = "[JStr ''https://www.linkedin.com/company/crux/'']", OF run idle fresh new]
    run out about start ev
  show ?thesis by simp
qed

section \<open>One listing page\<close>

text \<open>The final check of \<open>processCompany\<close> sees the URL of the entry and an empty name: an
  entry the pre-filter let through passes it too.\<close>

lemma final_check_after_prefilter:
  assumes "isDuplicateCompany (Some c) cs = Inr False"
  shows "isDuplicateCompany (Some (candidate (url c) (JStr []))) cs = Inr False"
proof -
  from assms obtain r where r: "normalizeName (name c) = Inr r"
    by (cases "normalizeName (name c)") (simp_all add: isDuplicateCompany.simps Let_def)
  have r': "normalizeName (name (candidate (url c) (JStr []))) = Inr None"
    by (simp add: candidate_def)
  from assms have "\<not> (normalizeUrl (url c) \<noteq> None
       \<and> (\<exists>e\<in>set cs. url_callback (normalizeUrl (url c)) (extractCompanySlug (url c)) e))"
    and "\<not> (\<exists>e\<in>set cs. by_slug c e)"
    unfolding isDuplicateCompany_unfold [OF r] by (auto split: if_splits)
  then show ?thesis
    unfolding isDuplicateCompany_unfold [OF r'] by (simp add: by_slug_def candidate_def)
qed

lemma slug_match_is_duplicate:
  assumes "name_typed c" and "\<exists>e\<in>set cs. by_slug c e"
  shows "isDuplicateCompany (Some c) cs = Inr True"
proof -
  from assms(1) obtain r where r: "normalizeName (name c) = Inr r"
    using name_typed_normalizeName by blast
  from assms(2) show ?thesis
    unfolding isDuplicateCompany_unfold [OF r] by simp
qed

text \<open>
  C7. The first listing page yields the entries \<open>a\<close>, \<open>b\<close>, \<open>c\<close>; \<open>a\<close> and \<open>c\<close> match a
  stored record by slug, \<open>b\<close> is not a duplicate of any stored record and its URL is a
  non-empty string; the visit of \<open>b\<close> returns a record whose save does not throw. A run
  started with a budget of one page then ends with the queue holding the URL of \<open>b\<close>
  alone, a notification of 3 entries found on the page, 3 as the total found, 1 as the
  count of processed entries, and the About page of \<open>b\<close> as the only tab created: none was
  created for \<open>a\<close> or \<open>c\<close>.
\<close>

theorem known_entries_skipped:
  assumes page: "pageResponse env (startPageDetected env) = Companies [a, b, c]"
    and a: "name_typed (companyToCheck a)"
           "\<exists>e\<in>set (getCompanies (store w)). by_slug (companyToCheck a) e"
    and c: "name_typed (companyToCheck c)"
           "\<exists>e\<in>set (getCompanies (store w)). by_slug (companyToCheck c) e"
    and b: "isDuplicateCompany (Some (companyToCheck b)) (getCompanies (store w)) = Inr False"
    and u: "item_url b = JStr u" "u \<noteq> []"
    and out: "itemOutcome env (startPageDetected env) 0 = Extracted d"
    and d: "isDuplicateCompany (Some d) (getCompanies (store w)) = Inr known"
  shows "companyQueue (startScraping env 1 w) = [JStr u]
    \<and> CompaniesFound 3 (startPageDetected env) \<in> set (ui (startScraping env 1 w))
    \<and> totalCompaniesFound (startScraping env 1 w) = 3
    \<and> processedCompanies (startScraping env 1 w) = 1
    \<and> created (startScraping env 1 w) = created w @ [aboutUrl u]
    \<and> errors (startScraping env 1 w) = []
    \<and> \<not> isRunning (startScraping env 1 w)"
proof -
  let ?cs = "getCompanies (store w)"
  let ?s = "w\<lparr>isRunning := True, isPaused := False, maxPages := 1,
          startPage := startPageDetected env, currentPage := startPageDetected env,
          processedCompanies := 0, totalCompaniesFound := 0, companyQueue := [],
          currentCompanyIndex := 0, errors := [], ui := ui w @ [ScrapingStarted]\<rparr>"
  have da: "isDuplicateCompany (Some (companyToCheck a)) ?cs = Inr True"
    using a by (rule slug_match_is_duplicate)
  have dc: "isDuplicateCompany (Some (companyToCheck c)) ?cs = Inr True"
    using c by (rule slug_match_is_duplicate)
  have ub: "url (companyToCheck b) = JStr u"
    using u by (simp add: companyToCheck_def candidate_def)
  have fin: "isDuplicateCompany (Some (candidate (JStr u) (JStr []))) ?cs = Inr False"
    using final_check_after_prefilter [OF b] ub by simp
  have pf: "preFilter [a, b, c] ?cs
              = Inr ([companyToCheck b], [companyToCheck a, companyToCheck c])"
    by (simp add: da b dc)
  define w2 where "w2 = ?s\<lparr>ui := ui w @ [ScrapingStarted,
          StatusUpdate (ProcessingPage (startPageDetected env)),
          CompaniesFound 3 (startPageDetected env),
          StatusUpdate (PageSummary (startPageDetected env) 1 2)],
        listingLog := listingLog w @ [(startPageDetected env, ExtractCompanyURLs)],
        companyQueue := [JStr u], totalCompaniesFound := 3, currentCompanyIndex := 0\<rparr>"
  have sp1: "scrapePage env ?s = processCompanyQueue env w2"
    by (simp add: scrapePage_def page pf ub Let_def w2_def numeral_3_eq_3 numeral_2_eq_2
          del: preFilter.simps)
       (rule arg_cong [where f = "processCompanyQueue env"], rule coordinator.equality,
        simp_all)
  have f: "isRunning w2" "\<not> isPaused w2" "companyQueue w2 = [JStr u]"
    "totalCompaniesFound w2 = 3" "processedCompanies w2 = 0" "created w2 = created w"
    "errors w2 = []" "CompaniesFound 3 (startPageDetected env) \<in> set (ui w2)"
    "currentPage w2 = startPageDetected env" "startPage w2 = startPageDetected env"
    "maxPages w2 = 1" "store w2 = store w"
    by (simp_all add: w2_def)
  let ?v = "visitCompany env (JStr u)
           (w2\<lparr>currentCompanyIndex := 0,
                ui := ui w2 @ [StatusUpdate (ScrapingCompany (processedCompanies w2 + 1))]\<rparr>)"
  have pc: "processCompany env (JStr u) (w2\<lparr>currentCompanyIndex := 0\<rparr>) = (?v, None)"
    unfolding processCompany_def using fin by (simp add: f)
  have q: "processCompanyQueue env w2 = (userEvents env 0 ?v, None)"
    unfolding processCompanyQueue_def by (simp add: f pc)
  define w1 where "w1 = userEvents env 0 ?v"
  have w1: "companyQueue w1 = [JStr u]" "totalCompaniesFound w1 = 3"
       "processedCompanies w1 = 1" "created w1 = created w @ [aboutUrl u]" "errors w1 = []"
       "CompaniesFound 3 (startPageDetected env) \<in> set (ui w1)"
       "currentPage w1 = startPageDetected env" "startPage w1 = startPageDetected env"
       "maxPages w1 = 1"
    unfolding w1_def using out d
    by (cases known;
        simp add: visitCompany_def recordCompany_def saveCompanyData_def openTab_def
          closeActiveTab_def userEvents_def pauseScraping_def Let_def f)+
  have sp: "scrapePage env ?s = (w1, None)" using sp1 q by (simp add: w1_def)
  have "startScraping env 1 w = completeScraping w1"
    unfolding startScraping_def
    by (subst processCurrentPage.simps) (simp add: sp w1)
  then show ?thesis
    using w1 by (simp add: completeScraping_def closeActiveTab_def Let_def split: option.splits)
qed

theorem known_entries_skipped_witness:
  "pageResponse listing (startPageDetected listing)
     = Companies [entry ''Acme'' ''https://www.linkedin.com/company/acme/'',
                  entry ''Bolt'' ''https://www.linkedin.com/company/bolt/'',
                  entry ''Crux Ltd'' ''https://www.linkedin.com/company/crux/'']
   \<and> by_slug (companyToCheck (entry ''Acme'' ''https://www.linkedin.com/company/acme/''))
        (stored ! 0)
   \<and> by_slug (companyToCheck (entry ''Crux Ltd'' ''https://www.linkedin.com/company/crux/''))
        (stored ! 1)
   \<and> companyQueue (startScraping listing 1 (new_ScraperCoordinator (Some stored)))
       = [JStr ''https://www.linkedin.com/company/bolt/'']
   \<and> CompaniesFound 3 1
       \<in> set (ui (startScraping listing 1 (new_ScraperCoordinator (Some stored))))
   \<and> totalCompaniesFound (startScraping listing 1 (new_ScraperCoordinator (Some stored))) = 3
   \<and> processedCompanies (startScraping listing 1 (new_ScraperCoordinator (Some stored))) = 1
   \<and> created (startScraping listing 1 (new_ScraperCoordinator (Some stored)))
       = [''https://www.linkedin.com/company/bolt/about/'']"
proof -
  let ?a = "entry ''Acme'' ''https://www.linkedin.com/company/acme/''"
  let ?b = "entry ''Bolt'' ''https://www.linkedin.com/company/bolt/''"
  let ?c = "entry ''Crux Ltd'' ''https://www.linkedin.com/company/crux/''"
  let ?w = "new_ScraperCoordinator (Some stored)"
  have page: "pageResponse listing (startPageDetected listing) = Companies [?a, ?b, ?c]"
    by (simp add: listing_def calm_def)
  have st: "getCompanies (store ?w) = stored"
    by (simp add: new_ScraperCoordinator_def getCompanies_def)
  have a0: "by_slug (companyToCheck ?a) (stored ! 0)" by code_simp
  have c1: "by_slug (companyToCheck ?c) (stored ! 1)" by code_simp
  have m: "stored ! 0 \<in> set stored" "stored ! 1 \<in> set stored"
    by (simp_all add: stored_def)
  have a: "name_typed (companyToCheck ?a)"
    by (simp add: name_typed_def companyToCheck_def candidate_def entry_def)
  have a': "\<exists>e\<in>set (getCompanies (store ?w)). by_slug (companyToCheck ?a) e"
    unfolding st using a0 m(1) by blast
  have c: "name_typed (companyToCheck ?c)"
    by (simp add: name_typed_def companyToCheck_def candidate_def entry_def)
  have c': "\<exists>e\<in>set (getCompanies (store ?w)). by_slug (companyToCheck ?c) e"
    unfolding st using c1 m(2) by blast
  have b: "isDuplicateCompany (Some (companyToCheck ?b)) (getCompanies (store ?w)) = Inr False"
    unfolding st by code_simp
  have u: "item_url ?b = JStr ''https://www.linkedin.com/company/bolt/''"
    "''https://www.linkedin.com/company/bolt/'' \<noteq> []"
    by (simp_all add: entry_def)
  have out: "itemOutcome listing (startPageDetected listing) 0
               = Extracted (listed ''Bolt'' ''https://www.linkedin.com/company/bolt'')"
    by (simp add: listing_def)
  have d: "isDuplicateCompany (Some (listed ''Bolt'' ''https://www.linkedin.com/company/bolt''))
             (getCompanies (store ?w)) = Inr False"
    unfolding st by code_simp
  have about: "aboutUrl ''https://www.linkedin.com/company/bolt/''
                 = ''https://www.linkedin.com/company/bolt/about/''"
    by code_simp
  have init: "created ?w = [] \<and> startPageDetected listing = 1"
    by (simp add: new_ScraperCoordinator_def listing_def calm_def)
  from known_entries_skipped [OF page a a' c c' b u out d] page a0 c1 about init
  show ?thesis by simp
qed

section \<open>Pausing and resuming\<close>

text \<open>The loop of \<open>processCompanyQueue\<close> reads the flag in front of each item: while the
  run is paused it takes up no item and changes nothing.\<close>

lemma paused_queue_halts:
  "isPaused w \<Longrightarrow> queueFrom env i us w = (w, None)"
  by (cases us) simp_all

text \<open>
  C4. A run over three pages, each listing the same three new companies. When the user
  pauses while the first item of page 1 is in flight, the loop stops after that item, and
  \<open>processCurrentPage\<close>, finding the run paused, completes it: the run is neither running
  nor paused, the completion is notified, and \<open>resumeScraping\<close> afterwards visits
  nothing, so the second and third item are never visited. When the user pauses while
  the coordinator waits for page 2, the run stays running and paused with the cursor on
  the last index of page 1's queue; \<open>resumeScraping\<close> then goes through that queue from
  index 0 again: the two saved companies are counted as processed a second time, the
  item that had failed is visited a second time, and page 2 is never requested.
\<close>

theorem pause_ends_run_resume_restarts_queue:
  "created (startScraping interrupted 3 (new_ScraperCoordinator None))
     = [''https://www.linkedin.com/company/acme/about/'']
   \<and> processedCompanies (startScraping interrupted 3 (new_ScraperCoordinator None)) = 1
   \<and> currentCompanyIndex (startScraping interrupted 3 (new_ScraperCoordinator None)) = 0
   \<and> length (companyQueue (startScraping interrupted 3 (new_ScraperCoordinator None))) = 3
   \<and> \<not> isRunning (startScraping interrupted 3 (new_ScraperCoordinator None))
   \<and> \<not> isPaused (startScraping interrupted 3 (new_ScraperCoordinator None))
   \<and> last (ui (startScraping interrupted 3 (new_ScraperCoordinator None)))
       = ScrapingComplete
           \<lparr>totalProcessed = 1, totalFound = 3, pagesScraped = 1, errorCount = 0\<rparr>
   \<and> created (resumeScraping interrupted
          (startScraping interrupted 3 (new_ScraperCoordinator None)))
       = [''https://www.linkedin.com/company/acme/about/'']
   \<and> isRunning (startScraping interrupted_later 3 (new_ScraperCoordinator None))
   \<and> isPaused (startScraping interrupted_later 3 (new_ScraperCoordinator None))
   \<and> currentCompanyIndex (startScraping interrupted_later 3 (new_ScraperCoordinator None)) = 2
   \<and> processedCompanies (startScraping interrupted_later 3 (new_ScraperCoordinator None)) = 2
   \<and> created (startScraping interrupted_later 3 (new_ScraperCoordinator None))
       = [''https://www.linkedin.com/company/acme/about/'',
          ''https://www.linkedin.com/company/bolt/about/'',
          ''https://www.linkedin.com/company/crux/about/'']
   \<and> created (resumeScraping interrupted_later
          (startScraping interrupted_later 3 (new_ScraperCoordinator None)))
       = [''https://www.linkedin.com/company/acme/about/'',
          ''https://www.linkedin.com/company/bolt/about/'',
          ''https://www.linkedin.com/company/crux/about/'',
          ''https://www.linkedin.com/company/bolt/about/'']
   \<and> processedCompanies (resumeScraping interrupted_later
          (startScraping interrupted_later 3 (new_ScraperCoordinator None))) = 4
   \<and> visited (resumeScraping interrupted_later
          (startScraping interrupted_later 3 (new_ScraperCoordinator None))) = [1]"
proof -
  have a: "then_resumed interrupted (startScraping interrupted 3 (new_ScraperCoordinator None))
    = ((False, False, 0, 3, 1, [''https://www.linkedin.com/company/acme/about/''], [1]),
       ScrapingComplete
         \<lparr>totalProcessed = 1, totalFound = 3, pagesScraped = 1, errorCount = 0\<rparr>,
       (False, False, 0, 3, 1, [''https://www.linkedin.com/company/acme/about/''], [1]))"
    by code_simp
  have b: "then_resumed interrupted_later
             (startScraping interrupted_later 3 (new_ScraperCoordinator None))
    = ((True, True, 2, 3, 2,
        [''https://www.linkedin.com/company/acme/about/'',
         ''https://www.linkedin.com/company/bolt/about/'',
         ''https://www.linkedin.com/company/crux/about/''], [1]),
       ScrapingPaused,
       (True, False, 2, 3, 4,
        [''https://www.linkedin.com/company/acme/about/'',
         ''https://www.linkedin.com/company/bolt/about/'',
         ''https://www.linkedin.com/company/crux/about/'',
         ''https://www.linkedin.com/company/bolt/about/''], [1]))"
    by code_simp
  from a b show ?thesis
    by (simp add: then_resumed_def observed_def)
qed

section \<open>The page budget of a run\<close>

text \<open>Work on the items of a page sends nothing to the listing tab; a page's entries are
  requested once, from the current page.\<close>

lemma listingLog_visitCompany [simp]: "listingLog (visitCompany env u w) = listingLog w"
  by (simp add: visitCompany_def recordCompany_def failCompany_def closeActiveTab_def
        openTab_def Let_def
      split: jsval.splits item_outcome.splits prod.splits sum.splits option.splits)

lemma listingLog_processCompany [simp]:
  "listingLog (fst (processCompany env u w)) = listingLog w"
  by (simp add: processCompany_def split: sum.splits bool.splits)

lemma listingLog_userEvents [simp]: "listingLog (userEvents env i w) = listingLog w"
  by (simp add: userEvents_def pauseScraping_def)

lemma listingLog_queueFrom [simp]: "listingLog (fst (queueFrom env i us w)) = listingLog w"
proof (induction us arbitrary: i w)
  case Nil
  then show ?case by simp
next
  case (Cons u us)
  show ?case
  proof (cases "\<not> isRunning w \<or> isPaused w")
    case True
    then show ?thesis by simp
  next
    case False
    obtain w' r where p: "processCompany env u (w\<lparr>currentCompanyIndex := i\<rparr>) = (w', r)"
      by (cases "processCompany env u (w\<lparr>currentCompanyIndex := i\<rparr>)")
    have s1: "listingLog w' = listingLog w"
      using listingLog_processCompany [of env u "w\<lparr>currentCompanyIndex := i\<rparr>"] p by simp
    show ?thesis
    proof (cases r)
      case (Some e)
      with False p s1 show ?thesis by simp
    next
      case None
      with Cons.IH [where i = "Suc i" and w = "userEvents env i w'"] False p s1
      show ?thesis by simp
    qed
  qed
qed

lemma listingLog_scrapePage:
  "listingLog (fst (scrapePage env w)) = listingLog w @ [(currentPage w, ExtractCompanyURLs)]"
  by (simp add: scrapePage_def processCompanyQueue_def Let_def
      split: page_response.splits sum.splits prod.splits)

lemma completeScraping_completed [simp]: "completed (completeScraping w)"
  by (simp add: completed_def completeScraping_def closeActiveTab_def run_stats_def Let_def
      split: option.splits)

lemma completeScraping_fields [simp]:
  "listingLog (completeScraping w) = listingLog w"
  "currentPage (completeScraping w) = currentPage w"
  "startPage (completeScraping w) = startPage w"
  "maxPages (completeScraping w) = maxPages w"
  by (simp_all add: completeScraping_def closeActiveTab_def Let_def split: option.splits)

lemma within_budget_cong:
  "listingLog w' = listingLog w \<Longrightarrow> currentPage w' = currentPage w
     \<Longrightarrow> startPage w' = startPage w \<Longrightarrow> maxPages w' = maxPages w
     \<Longrightarrow> within_budget w' = within_budget w"
  by (simp add: within_budget_def visited_def clicks_def)

lemma budget_kept_completeScraping:
  "within_budget w \<Longrightarrow> budget_kept w (completeScraping w)"
  by (simp add: budget_kept_def within_budget_cong [of "completeScraping w" w])

lemma budget_kept_pageFailed:
  "within_budget w \<Longrightarrow> budget_kept w (pageFailed e w)"
  unfolding pageFailed_def
  by (simp add: budget_kept_def
      within_budget_cong [of "completeScraping
         (w\<lparr>errors := errors w @ [PageError (currentPage w) e],
            ui := ui w @ [StatusUpdate (ErrorStatus e)]\<rparr>)" w])

lemma budget_kept_paginationFailed:
  "within_budget w \<Longrightarrow> budget_kept w (paginationFailed e w)"
  unfolding paginationFailed_def
  by (simp add: budget_kept_def
      within_budget_cong [of "completeScraping
         (w\<lparr>errors := errors w @ [PaginationError (currentPage w + 1) e],
            ui := ui w @ [StatusUpdate (NavigationError e)]\<rparr>)" w])

lemma within_budget_scrapePage:
  assumes "within_budget w" and "\<forall>p\<in>set (visited w). p < currentPage w"
    and "scrapePage env w = (w1, r)"
  shows "within_budget w1" and "currentPage w1 = currentPage w"
    and "startPage w1 = startPage w" and "maxPages w1 = maxPages w"
proof -
  have l: "listingLog w1 = listingLog w @ [(currentPage w, ExtractCompanyURLs)]"
    using listingLog_scrapePage [of env w] assms(3) by simp
  show p: "currentPage w1 = currentPage w" "startPage w1 = startPage w"
    "maxPages w1 = maxPages w"
    using same_pages_scrapePage [of w env] assms(3) by (simp_all add: same_pages_def)
  show "within_budget w1"
    using assms(1,2) by (auto simp: within_budget_def l p visited_def clicks_def)
qed

lemma within_budget_askedToClick:
  assumes "within_budget w" and "currentPage w - startPage w + 1 < maxPages w"
  shows "within_budget (askedToClick w)" and "within_budget (clicked w)"
    and "within_budget (arrive env (clicked w))"
    and "\<forall>p\<in>set (visited (arrive env (clicked w))). p < currentPage (arrive env (clicked w))"
  using assms
  by (auto simp: within_budget_def askedToClick_def clicked_def arrive_def pauseScraping_def
        visited_def clicks_def)

lemma budget_kept_trans:
  "budget_kept w1 w' \<Longrightarrow> startPage w1 = startPage w \<Longrightarrow> maxPages w1 = maxPages w
     \<Longrightarrow> budget_kept w w'"
  by (simp add: budget_kept_def)

lemma not_yet_visited:
  assumes "within_budget w" and "\<forall>p\<in>set (visited w). p < currentPage w"
  shows "startPage w + maxPages w - 1 \<notin> set (visited w)"
  using assms by (auto simp: within_budget_def)

lemma not_yet_visited':
  assumes "within_budget w" and "currentPage w - startPage w + 1 < maxPages w"
  shows "startPage w + maxPages w - 1 \<notin> set (visited w)"
  using assms by (fastforce simp: within_budget_def visited_def)

lemma drive_keeps_budget:
  "within_budget w \<Longrightarrow> \<forall>p\<in>set (visited w). p < currentPage w
     \<Longrightarrow> budget_kept w (processCurrentPage env w)"
  "within_budget w \<Longrightarrow> currentPage w - startPage w + 1 < maxPages w
     \<Longrightarrow> budget_kept w (goToNextPage env w)"
proof (induction env w and env w rule: processCurrentPage_goToNextPage.induct)
  case (1 env w)
  show ?case
  proof (cases "\<not> isRunning w \<or> isPaused w")
    case True
    then have "processCurrentPage env w = w"
      by (subst processCurrentPage.simps) simp
    then show ?thesis
      using "1.prems" not_yet_visited [OF "1.prems"] by (simp add: budget_kept_def)
  next
    case False
    obtain w1 r where sp: "scrapePage env w = (w1, r)"
      by (cases "scrapePage env w")
    note b = within_budget_scrapePage [OF "1.prems" sp]
    show ?thesis
    proof (cases r)
      case (Some e)
      then have "processCurrentPage env w = pageFailed e w1"
        using False sp by (subst processCurrentPage.simps) simp
      then show ?thesis
        using budget_kept_trans [OF budget_kept_pageFailed [OF b(1), of e] b(3,4)] by simp
    next
      case None
      show ?thesis
      proof (cases "isRunning w1 \<and> \<not> isPaused w1
                     \<and> currentPage w1 - startPage w1 + 1 < maxPages w1")
        case True
        then have "processCurrentPage env w = goToNextPage env w1"
          using False sp None by (subst processCurrentPage.simps) simp
        moreover have "budget_kept w1 (goToNextPage env w1)"
          using "1.IH" [OF False sp [symmetric] None True b(1)] True by simp
        ultimately show ?thesis
          using budget_kept_trans [OF _ b(3,4)] by simp
      next
        case stop: False
        then have "processCurrentPage env w = completeScraping w1"
          using False sp None by (subst processCurrentPage.simps) auto
        then show ?thesis
          using budget_kept_trans [OF budget_kept_completeScraping [OF b(1)] b(3,4)] by simp
      qed
    qed
  qed
next
  case (2 env w)
  note a = within_budget_askedToClick [OF "2.prems"]
  have pg: "startPage (askedToClick w) = startPage w" "maxPages (askedToClick w) = maxPages w"
    "startPage (clicked w) = startPage w" "maxPages (clicked w) = maxPages w"
    "startPage (arrive env (clicked w)) = startPage w"
    "maxPages (arrive env (clicked w)) = maxPages w"
    by (simp_all add: askedToClick_def clicked_def arrive_def pauseScraping_def)
  note t1 = budget_kept_trans [OF _ pg(1,2)] and t2 = budget_kept_trans [OF _ pg(3,4)]
    and t3 = budget_kept_trans [OF _ pg(5,6)]
  show ?case
  proof (cases "advance env (currentPage w)")
    case (TabInvalid e)
    then have "goToNextPage env w = paginationFailed e w"
      by (subst goToNextPage.simps) simp
    then show ?thesis
      using budget_kept_paginationFailed [OF "2.prems"(1)] by simp
  next
    case ClickFails
    then have "goToNextPage env w
      = (if companyQueue w = [] \<and> processedCompanies w = 0
         then paginationFailed
                (Error (''No pagination button found and no companies extracted. ''
                   @ ''Might not be on a valid search results page.''))
                (askedToClick w)
         else completeScraping (askedToClick w))"
      by (subst goToNextPage.simps) simp
    then show ?thesis
      using t1 [OF budget_kept_paginationFailed [OF a(1)]]
        t1 [OF budget_kept_completeScraping [OF a(1)]]
      by simp
  next
    case (TabLost e)
    then have "goToNextPage env w = paginationFailed e (clicked w)"
      by (subst goToNextPage.simps) simp
    then show ?thesis
      using t2 [OF budget_kept_paginationFailed [OF a(2)]] by simp
  next
    case NavigatedAway
    then have "goToNextPage env w
      = paginationFailed (Error ''Navigation took us away from search results page'')
          (clicked w)"
      by (subst goToNextPage.simps) simp
    then show ?thesis
      using t2 [OF budget_kept_paginationFailed [OF a(2)]] by simp
  next
    case Advanced
    then have "goToNextPage env w = processCurrentPage env (arrive env (clicked w))"
      by (subst goToNextPage.simps) simp
    then show ?thesis
      using t3 [OF "2.IH" [OF Advanced a(3,4)]] by simp
  qed
qed

text \<open>
  C3. A run started with a budget of \<open>N \<ge> 1\<close> pages on a coordinator that has sent no
  message to the listing tab yet, in any environment (so also when every advance
  succeeds). Every message to the listing tab is sent from a page \<open>p\<close> with
  \<open>p - startPage + 1\<close> between 1 and \<open>N\<close>; the pages whose entries are requested are
  pairwise distinct and at most \<open>N\<close>; a click on "next" is only sent from a page with
  \<open>p - startPage + 1 < N\<close>; the run ends with \<open>currentPage - startPage + 1 \<le> maxPages\<close>;
  and when the entries of the \<open>N\<close>th page have been requested the run is completed (not
  running, completion notified) and no click was sent from that page.
\<close>

theorem page_budget_respected:
  assumes "1 \<le> N" and "listingLog w = []"
  shows "(\<forall>e\<in>set (listingLog (startScraping env N w)).
            startPageDetected env \<le> fst e \<and> fst e - startPageDetected env + 1 \<le> N)
    \<and> distinct (visited (startScraping env N w))
    \<and> int (length (visited (startScraping env N w))) \<le> N
    \<and> (\<forall>p\<in>set (clicks (startScraping env N w)). p - startPageDetected env + 1 < N)
    \<and> startPage (startScraping env N w) = startPageDetected env
    \<and> maxPages (startScraping env N w) = N
    \<and> currentPage (startScraping env N w) - startPage (startScraping env N w) + 1
        \<le> maxPages (startScraping env N w)
    \<and> (startPageDetected env + N - 1 \<in> set (visited (startScraping env N w))
         \<longrightarrow> completed (startScraping env N w)
             \<and> startPageDetected env + N - 1 \<notin> set (clicks (startScraping env N w)))"
proof -
  let ?sp = "startPageDetected env"
  let ?s = "w\<lparr>isRunning := True, isPaused := False, maxPages := N,
          startPage := ?sp, currentPage := ?sp,
          processedCompanies := 0, totalCompaniesFound := 0, companyQueue := [],
          currentCompanyIndex := 0, errors := [], ui := ui w @ [ScrapingStarted]\<rparr>"
  let ?w = "startScraping env N w"
  have wb: "within_budget ?s"
    using assms by (simp add: within_budget_def visited_def clicks_def)
  have nv: "\<forall>p\<in>set (visited ?s). p < currentPage ?s"
    using assms by (simp add: visited_def)
  have "budget_kept ?s ?w"
    unfolding startScraping_def by (rule drive_keeps_budget(1) [OF wb nv])
  then have k: "within_budget ?w" and sp: "startPage ?w = ?sp" and mp: "maxPages ?w = N"
    and c: "?sp + N - 1 \<in> set (visited ?w) \<longrightarrow> completed ?w"
    by (simp_all add: budget_kept_def)
  from k have cur: "?sp \<le> currentPage ?w" "currentPage ?w - ?sp + 1 \<le> N"
    and lg: "\<forall>e\<in>set (listingLog ?w). ?sp \<le> fst e \<and> fst e \<le> currentPage ?w"
    and ck: "\<forall>p\<in>set (clicks ?w). p - ?sp + 1 < N"
    and d: "distinct (visited ?w)"
    by (simp_all add: within_budget_def sp mp)
  have lg': "\<forall>e\<in>set (listingLog ?w). ?sp \<le> fst e \<and> fst e - ?sp + 1 \<le> N"
    using lg cur by fastforce
  have "set (visited ?w) \<subseteq> {?sp..?sp + N - 1}"
    using lg' by (auto simp: visited_def)
  then have "card (set (visited ?w)) \<le> card {?sp..?sp + N - 1}"
    by (intro card_mono) simp_all
  then have len: "int (length (visited ?w)) \<le> N"
    using d assms(1) by (simp add: distinct_card)
  have nc: "?sp + N - 1 \<notin> set (clicks ?w)"
    using ck by auto
  from lg' d len ck sp mp cur c nc show ?thesis by simp
qed

theorem page_budget_respected_witness:
  "listingLog (new_ScraperCoordinator None) = []
   \<and> advance calm 2 = Advanced
   \<and> visited (startScraping calm 2 (new_ScraperCoordinator None)) = [1, 2]
   \<and> clicks (startScraping calm 2 (new_ScraperCoordinator None)) = [1]
   \<and> currentPage (startScraping calm 2 (new_ScraperCoordinator None)) = 2
   \<and> completed (startScraping calm 2 (new_ScraperCoordinator None))"
proof -
  have l: "listingLog (new_ScraperCoordinator None) = []"
    by (simp add: new_ScraperCoordinator_def)
  have a: "advance calm 2 = Advanced"
    by (simp add: calm_def)
  have sp: "startPageDetected calm = 1"
    by (simp add: calm_def)
  have v: "visited (startScraping calm 2 (new_ScraperCoordinator None)) = [1, 2]"
    by code_simp
  have c: "clicks (startScraping calm 2 (new_ScraperCoordinator None)) = [1]"
    by code_simp
  have p: "currentPage (startScraping calm 2 (new_ScraperCoordinator None)) = 2"
    by code_simp
  from page_budget_respected [of 2 "new_ScraperCoordinator None" calm] l a sp v c p
  show ?thesis by simp
qed

section \<open>Waiting between requests\<close>

lemma waitWithRateLimit_floor:
  "2000 \<le> delay \<Longrightarrow> delay \<le> now - lastRequestTime rl
     \<Longrightarrow> fst (waitWithRateLimit delay now after rl) = 2000"
  by (simp add: waitWithRateLimit_def)

lemma wait_remainder:
  "now - lastRequestTime rl < delay
     \<Longrightarrow> fst (RateLimiter_wait delay now after rl) = delay - (now - lastRequestTime rl)
       \<and> fst (waitWithRateLimit delay now after rl) = delay - (now - lastRequestTime rl)"
  by (simp add: RateLimiter_wait_def waitWithRateLimit_def)

text \<open>
  C5. \<open>RateLimiter.wait\<close> at the first call on a fresh limiter: the last request time is 0,
  the clock reads 1700000000000 and the sampled delay is 7000, so more time has passed
  than the delay. The wait is 0 ms, where the coordinator's own \<open>waitWithRateLimit\<close>
  sleeps 2000 ms on the same input.
\<close>

theorem RateLimiter_wait_idle_is_zero:
  "fst (RateLimiter_wait 7000 1700000000000 1700000000000 new_RateLimiter) = 0
   \<and> fst (waitWithRateLimit 7000 1700000000000 1700000002000 new_RateLimiter) = 2000"
  by (simp add: RateLimiter_wait_def waitWithRateLimit_def new_RateLimiter_def)

end
